theory Spec2Isabelle
  imports Main "HOL-Library.Word"
begin

unbundle bit_operations_syntax

section \<open>The configuration store used by btif_config.c\<close>

text \<open>
  Modelled from the spec: the section/key/value store of config.h (config_t and the
  functions config_has_section, config_has_key, config_get_string, config_set_string,
  config_get_int, config_set_int, config_remove_key, config_remove_section and the section
  iterator), which btif_config.c calls and config.c implements. The spec describes
  it as an ordered mapping from section names to ordered mappings from key names to
  string values, with lookup by name, create-or-update writes and removal by name.
  A C string is modelled as the list of its characters before the terminating NUL.
\<close>

record entry_t =
  entry_key :: string
  entry_value :: string

record section_t =
  section_name :: string
  section_entries :: "entry_t list"

type_synonym config_t = "section_t list"

fun section_find :: "config_t \<Rightarrow> string \<Rightarrow> section_t option" where
  "section_find [] nm = None"
| "section_find (sec # rest) nm =
     (if section_name sec = nm then Some sec else section_find rest nm)"

fun entry_find_in :: "entry_t list \<Rightarrow> string \<Rightarrow> entry_t option" where
  "entry_find_in [] k = None"
| "entry_find_in (e # es) k = (if entry_key e = k then Some e else entry_find_in es k)"

definition entry_find :: "config_t \<Rightarrow> string \<Rightarrow> string \<Rightarrow> entry_t option" where
  "entry_find cfg nm k =
     (case section_find cfg nm of
        None \<Rightarrow> None
      | Some sec \<Rightarrow> entry_find_in (section_entries sec) k)"

definition config_has_section :: "config_t \<Rightarrow> string \<Rightarrow> bool" where
  "config_has_section cfg nm = (section_find cfg nm \<noteq> None)"

definition config_has_key :: "config_t \<Rightarrow> string \<Rightarrow> string \<Rightarrow> bool" where
  "config_has_key cfg nm k = (entry_find cfg nm k \<noteq> None)"

text \<open>The default of config_get_string is a pointer; NULL is \<open>None\<close>.\<close>

definition config_get_string ::
  "config_t \<Rightarrow> string \<Rightarrow> string \<Rightarrow> string option \<Rightarrow> string option" where
  "config_get_string cfg nm k def_value =
     (case entry_find cfg nm k of
        None \<Rightarrow> def_value
      | Some e \<Rightarrow> Some (entry_value e))"

fun entries_set :: "entry_t list \<Rightarrow> string \<Rightarrow> string \<Rightarrow> entry_t list" where
  "entries_set [] k v = [\<lparr>entry_key = k, entry_value = v\<rparr>]"
| "entries_set (e # es) k v =
     (if entry_key e = k then e\<lparr>entry_value := v\<rparr> # es else e # entries_set es k v)"

fun config_set_string :: "config_t \<Rightarrow> string \<Rightarrow> string \<Rightarrow> string \<Rightarrow> config_t" where
  "config_set_string [] nm k v =
     [\<lparr>section_name = nm, section_entries = [\<lparr>entry_key = k, entry_value = v\<rparr>]\<rparr>]"
| "config_set_string (sec # rest) nm k v =
     (if section_name sec = nm
      then sec\<lparr>section_entries := entries_set (section_entries sec) k v\<rparr> # rest
      else sec # config_set_string rest nm k v)"

text \<open>Removal by name takes out the first section of that name and reports whether
  there was one.\<close>

fun config_remove_section :: "config_t \<Rightarrow> string \<Rightarrow> bool \<times> config_t" where
  "config_remove_section [] nm = (False, [])"
| "config_remove_section (sec # rest) nm =
     (if section_name sec = nm then (True, rest)
      else (case config_remove_section rest nm of (r, rest') \<Rightarrow> (r, sec # rest')))"

fun entries_remove :: "entry_t list \<Rightarrow> string \<Rightarrow> bool \<times> entry_t list" where
  "entries_remove [] k = (False, [])"
| "entries_remove (e # es) k =
     (if entry_key e = k then (True, es)
      else (case entries_remove es k of (r, es') \<Rightarrow> (r, e # es')))"

fun config_remove_key :: "config_t \<Rightarrow> string \<Rightarrow> string \<Rightarrow> bool \<times> config_t" where
  "config_remove_key [] nm k = (False, [])"
| "config_remove_key (sec # rest) nm k =
     (if section_name sec = nm
      then (case entries_remove (section_entries sec) k of
              (r, es') \<Rightarrow> (r, sec\<lparr>section_entries := es'\<rparr> # rest))
      else (case config_remove_key rest nm k of (r, rest') \<Rightarrow> (r, sec # rest')))"

section \<open>The binary codec of btif_config_set_bin and btif_config_get_bin\<close>

type_synonym uint8_t = "8 word"

definition lookup :: string where
  "lookup = ''0123456789abcdef''"

text \<open>The body of the encoding loop for one byte: index 2i gets the digit of
  \<open>(value[i] >> 0) & 0x0F\<close>, index 2i+1 the digit of \<open>(value[i] >> 4) & 0x0F\<close>.\<close>

definition encode_byte :: "uint8_t \<Rightarrow> string" where
  "encode_byte b =
     [lookup ! unat (drop_bit 0 b AND 0x0F), lookup ! unat (drop_bit 4 b AND 0x0F)]"

fun encode_bin :: "uint8_t list \<Rightarrow> string" where
  "encode_bin [] = []"
| "encode_bin (b # bs) = encode_byte b @ encode_bin bs"

text \<open>
  btif_config_set_bin. The array \<open>value\<close> with its \<open>length\<close> is the list of bytes.
  \<open>calloc_ok\<close> says whether the allocation of the text buffer succeeds; when it does
  not the function returns false and leaves the store alone. The first argument is
  the unused \<open>section\<close>.
\<close>

definition btif_config_set_bin ::
  "bool \<Rightarrow> config_t \<Rightarrow> string \<Rightarrow> string \<Rightarrow> string \<Rightarrow> uint8_t list \<Rightarrow> bool \<times> config_t" where
  "btif_config_set_bin calloc_ok cfg section k nm val =
     (if \<not> calloc_ok then (False, cfg)
      else (True, config_set_string cfg k nm (encode_bin val)))"

text \<open>isxdigit of the C locale, on the character code.\<close>

definition isxdigit :: "char \<Rightarrow> bool" where
  "isxdigit c =
     (let n = (of_char c :: nat)
      in (48 \<le> n \<and> n \<le> 57) \<or> (65 \<le> n \<and> n \<le> 70) \<or> (97 \<le> n \<and> n \<le> 102))"

definition hexval :: "char \<Rightarrow> nat" where
  "hexval c =
     (let n = (of_char c :: nat)
      in if 48 \<le> n \<and> n \<le> 57 then n - 48
         else if 97 \<le> n \<and> n \<le> 102 then n - 87
         else if 65 \<le> n \<and> n \<le> 70 then n - 55
         else 0)"

text \<open>
  \<open>sscanf(value_str, "%02hhx", &value[*length])\<close> on text that holds hex digits only:
  the conversion reads at most two digits as one hexadecimal number, most significant
  digit first, and stores it as an unsigned char.
\<close>

definition sscanf_02hhx :: "char \<Rightarrow> char \<Rightarrow> uint8_t" where
  "sscanf_02hhx c0 c1 = of_nat (16 * hexval c0 + hexval c1)"

text \<open>The decoding loop: it advances by two characters for each byte stored. The
  one-character rest is never reached behind the parity check of the caller.\<close>

fun decode_bin :: "string \<Rightarrow> uint8_t list" where
  "decode_bin (c0 # c1 # rest) = sscanf_02hhx c0 c1 # decode_bin rest"
| "decode_bin [c0] = [of_nat (hexval c0)]"
| "decode_bin [] = []"

text \<open>
  btif_config_get_bin. \<open>n\<close> is \<open>*length\<close> on entry, the capacity of the caller's
  buffer. \<open>None\<close> is the return value false (buffer and \<open>*length\<close> untouched);
  \<open>Some bs\<close> is the return value true with \<open>bs\<close> written to the buffer and
  \<open>*length\<close> set to the number of bytes.
\<close>

definition btif_config_get_bin ::
  "config_t \<Rightarrow> string \<Rightarrow> string \<Rightarrow> string \<Rightarrow> nat \<Rightarrow> uint8_t list option" where
  "btif_config_get_bin cfg section k nm n =
     (case config_get_string cfg k nm None of
        None \<Rightarrow> None
      | Some value_str \<Rightarrow>
          (let value_len = length value_str
           in if value_len mod 2 \<noteq> 0 \<or> n < value_len div 2 then None
              else if \<not> list_all isxdigit value_str then None
              else Some (decode_bin value_str)))"

definition btif_config_get_bin_length :: "config_t \<Rightarrow> string \<Rightarrow> string \<Rightarrow> string \<Rightarrow> nat" where
  "btif_config_get_bin_length cfg section k nm =
     (case config_get_string cfg k nm None of
        None \<Rightarrow> 0
      | Some value_str \<Rightarrow>
          (let value_len = length value_str
           in if value_len mod 2 \<noteq> 0 then 0 else value_len div 2))"

section \<open>Integer and string accessors\<close>

text \<open>
  Modelled from the spec: config_set_int stores the decimal text of the value
  (\<open>sprintf "%d"\<close>) and config_get_int reads it back with the C library's strtol
  (base 0), returning the default unless the whole text was consumed. strtol is a
  parameter: it maps a text to the long read and the unread rest. The long is assigned
  to an int, which keeps its low 32 bits in two's complement.
\<close>

definition int_of_long :: "int \<Rightarrow> int" where
  "int_of_long n = (n + 2 ^ 31) mod 2 ^ 32 - 2 ^ 31"

fun decimal :: "nat \<Rightarrow> string" where
  "decimal n =
     (if n < 10 then [char_of (48 + n)] else decimal (n div 10) @ [char_of (48 + n mod 10)])"

declare decimal.simps [simp del]

definition sprintf_d :: "int \<Rightarrow> string" where
  "sprintf_d i = (if i < 0 then CHR ''-'' # decimal (nat (- i)) else decimal (nat i))"

definition config_set_int :: "config_t \<Rightarrow> string \<Rightarrow> string \<Rightarrow> int \<Rightarrow> config_t" where
  "config_set_int cfg nm k v = config_set_string cfg nm k (sprintf_d v)"

definition config_get_int ::
  "(string \<Rightarrow> int \<times> string) \<Rightarrow> config_t \<Rightarrow> string \<Rightarrow> string \<Rightarrow> int \<Rightarrow> int" where
  "config_get_int strtol cfg nm k def_value =
     (case entry_find cfg nm k of
        None \<Rightarrow> def_value
      | Some e \<Rightarrow>
          (case strtol (entry_value e) of
             (ret, endptr) \<Rightarrow> if endptr = [] then int_of_long ret else def_value))"

text \<open>
  The public operations of btif_config.c. Each takes the store, the unused first
  argument \<open>section\<close>, then \<open>key\<close> (passed to the store as the section name) and
  \<open>name\<close> (passed as the key name). Operations that write return the new store.
\<close>

definition btif_config_has_key :: "config_t \<Rightarrow> string \<Rightarrow> string \<Rightarrow> bool" where
  "btif_config_has_key cfg section k = config_has_section cfg k"

definition btif_config_exist :: "config_t \<Rightarrow> string \<Rightarrow> string \<Rightarrow> string \<Rightarrow> bool" where
  "btif_config_exist cfg section k nm = config_has_key cfg k nm"

text \<open>btif_config_get_int returns the flag and the content of \<open>*value\<close> afterwards.\<close>

definition btif_config_get_int ::
  "(string \<Rightarrow> int \<times> string) \<Rightarrow> config_t \<Rightarrow> string \<Rightarrow> string \<Rightarrow> string \<Rightarrow> int \<Rightarrow> bool \<times> int" where
  "btif_config_get_int strtol cfg section k nm val =
     (let ret = config_has_key cfg k nm
      in (ret, if ret then config_get_int strtol cfg k nm val else val))"

definition btif_config_set_int ::
  "config_t \<Rightarrow> string \<Rightarrow> string \<Rightarrow> string \<Rightarrow> int \<Rightarrow> bool \<times> config_t" where
  "btif_config_set_int cfg section k nm val = (True, config_set_int cfg k nm val)"

definition btif_config_set_str ::
  "config_t \<Rightarrow> string \<Rightarrow> string \<Rightarrow> string \<Rightarrow> string \<Rightarrow> bool \<times> config_t" where
  "btif_config_set_str cfg section k nm val = (True, config_set_string cfg k nm val)"

definition btif_config_remove ::
  "config_t \<Rightarrow> string \<Rightarrow> string \<Rightarrow> string \<Rightarrow> bool \<times> config_t" where
  "btif_config_remove cfg section k nm = config_remove_key cfg k nm"

subsection \<open>Reading a string into the caller's buffer\<close>

text \<open>
  The caller's array \<open>value\<close> is the list of its bytes (its size is the length of the
  list) and \<open>n\<close> is \<open>*length\<close> on entry, a capacity and so not negative. A read or
  write outside the array is undefined behaviour of the C program and is a result of
  its own.
\<close>

datatype 'a c_result = Undefined_behaviour | Returns 'a

definition NUL :: char where
  "NUL = CHR 0x00"

text \<open>\<open>strlcpy(dst, src, size)\<close>: with \<open>size = 0\<close> nothing is written; otherwise at most
  \<open>size - 1\<close> characters of \<open>src\<close> are copied and a NUL is put behind them.\<close>

definition strlcpy :: "string \<Rightarrow> string \<Rightarrow> nat \<Rightarrow> string c_result" where
  "strlcpy dst src size' =
     (if size' = 0 then Returns dst
      else (let copied = take (size' - 1) src
            in if length dst < length copied + 1 then Undefined_behaviour
               else Returns (copied @ [NUL] @ drop (length copied + 1) dst)))"

text \<open>\<open>strlen\<close> on an array: the number of characters before the first NUL of the array;
  an array without one is read past its end.\<close>

definition strlen :: "string \<Rightarrow> nat c_result" where
  "strlen buf =
     (if NUL \<in> set buf then Returns (length (takeWhile (\<lambda>c. c \<noteq> NUL) buf))
      else Undefined_behaviour)"

text \<open>btif_config_get_str returns the flag, the array and \<open>*length\<close> afterwards.\<close>

definition btif_config_get_str ::
  "config_t \<Rightarrow> string \<Rightarrow> string \<Rightarrow> string \<Rightarrow> string \<Rightarrow> nat \<Rightarrow> (bool \<times> string \<times> nat) c_result" where
  "btif_config_get_str cfg section k nm val n =
     (case config_get_string cfg k nm None of
        None \<Rightarrow> Returns (False, val, n)
      | Some stored_value \<Rightarrow>
          (case strlcpy val stored_value n of
             Undefined_behaviour \<Rightarrow> Undefined_behaviour
           | Returns val' \<Rightarrow>
               (case strlen val' of
                  Undefined_behaviour \<Rightarrow> Undefined_behaviour
                | Returns l \<Rightarrow> Returns (True, val', l))))"

section \<open>Garbage collection and the deferred save\<close>

text \<open>
  Modelled from the spec: str_is_bdaddr, which btif_config.c calls and does not define.
  The spec calls a device section one whose name matches a colon/hyphen-delimited
  hardware-address pattern of six pairs of hex digits.
\<close>

fun hex_pairs :: "nat \<Rightarrow> string \<Rightarrow> bool" where
  "hex_pairs 0 s = False"
| "hex_pairs (Suc 0) s = (case s of [a, b] \<Rightarrow> isxdigit a \<and> isxdigit b | _ \<Rightarrow> False)"
| "hex_pairs (Suc (Suc n)) s =
     (case s of
        a # b # d # rest \<Rightarrow>
          isxdigit a \<and> isxdigit b \<and> (d = CHR '':'' \<or> d = CHR ''-'') \<and> hex_pairs (Suc n) rest
      | _ \<Rightarrow> False)"

definition str_is_bdaddr :: "string \<Rightarrow> bool" where
  "str_is_bdaddr s = hex_pairs 6 s"

definition CACHE_MAX :: nat where
  "CACHE_MAX = 256"

definition CONFIG_SETTLE_PERIOD_MS :: nat where
  "CONFIG_SETTLE_PERIOD_MS = 3000"

definition CONFIG_FILE_PATH :: string where
  "CONFIG_FILE_PATH = ''/data/misc/bluedroid/bt_config.conf''"

text \<open>The test of the scan that skips a section holding a credential.\<close>

definition has_link_key :: "config_t \<Rightarrow> string \<Rightarrow> bool" where
  "has_link_key cfg section =
     (config_has_key cfg section ''LinkKey'' \<or>
      config_has_key cfg section ''LE_KEY_PENC'' \<or>
      config_has_key cfg section ''LE_KEY_PID'' \<or>
      config_has_key cfg section ''LE_KEY_PCSRK'' \<or>
      config_has_key cfg section ''LE_KEY_LENC'' \<or>
      config_has_key cfg section ''LE_KEY_LCSRK'')"

text \<open>
  The scan of timer_config_save over the section list. \<open>keys\<close> is the filled part of
  the array \<open>keys\<close> (\<open>num_keys\<close> is its length); the second component is
  \<open>total_candidates\<close>.
\<close>

fun gc_scan :: "config_t \<Rightarrow> section_t list \<Rightarrow> string list \<times> nat \<Rightarrow> string list \<times> nat" where
  "gc_scan cfg [] (keys, total_candidates) = (keys, total_candidates)"
| "gc_scan cfg (snode # rest) (keys, total_candidates) =
     (let section = section_name snode
      in if \<not> str_is_bdaddr section then gc_scan cfg rest (keys, total_candidates)
         else if has_link_key cfg section then gc_scan cfg rest (keys, total_candidates)
         else gc_scan cfg rest
                (if length keys < CACHE_MAX then keys @ [section] else keys,
                 total_candidates + 1))"

text \<open>The removal loop \<open>while (num_keys > 0) config_remove_section(config, keys[--num_keys])\<close>
  takes the keys from the last to the first.\<close>

fun gc_remove :: "config_t \<Rightarrow> string list \<Rightarrow> config_t" where
  "gc_remove cfg [] = cfg"
| "gc_remove cfg (k # ks) = gc_remove (snd (config_remove_section cfg k)) ks"

definition timer_config_save_gc :: "config_t \<Rightarrow> config_t" where
  "timer_config_save_gc cfg =
     (case gc_scan cfg cfg ([], 0) of
        (keys, total_candidates) \<Rightarrow>
          if total_candidates > CACHE_MAX * 2 then gc_remove cfg (rev keys) else cfg)"

text \<open>
  The module state: the store, the alarm, and the calls on the lock and on the store in
  the order in which they are made. Modelled from the spec: the alarm of alarm.h is a
  one-shot timer that alarm_set (re)starts with a period and alarm_cancel stops;
  \<open>alarm_timer\<close> holds the milliseconds left until the callback runs, or \<open>None\<close> when
  the alarm is not set.
\<close>

datatype event =
    Mutex_lock
  | Mutex_unlock
  | Config_section_name string
  | Config_has_key string string
  | Config_remove_section string
  | Config_save config_t string

record btif_state =
  config :: config_t
  alarm_timer :: "nat option"
  trace :: "event list"

definition pthread_mutex_lock :: "btif_state \<Rightarrow> btif_state" where
  "pthread_mutex_lock st = st\<lparr>trace := trace st @ [Mutex_lock]\<rparr>"

definition pthread_mutex_unlock :: "btif_state \<Rightarrow> btif_state" where
  "pthread_mutex_unlock st = st\<lparr>trace := trace st @ [Mutex_unlock]\<rparr>"

definition alarm_set :: "nat \<Rightarrow> btif_state \<Rightarrow> btif_state" where
  "alarm_set period st = st\<lparr>alarm_timer := Some period\<rparr>"

definition alarm_cancel :: "btif_state \<Rightarrow> btif_state" where
  "alarm_cancel st = st\<lparr>alarm_timer := None\<rparr>"

text \<open>The calls of timer_config_save and btif_config_flush on the shared store: each
  does what the store function does and leaves its mark in the trace.\<close>

definition section_name_call :: "section_t \<Rightarrow> btif_state \<Rightarrow> string \<times> btif_state" where
  "section_name_call snode st =
     (section_name snode, st\<lparr>trace := trace st @ [Config_section_name (section_name snode)]\<rparr>)"

definition has_key_call :: "string \<Rightarrow> string \<Rightarrow> btif_state \<Rightarrow> bool \<times> btif_state" where
  "has_key_call section k st =
     (config_has_key (config st) section k,
      st\<lparr>trace := trace st @ [Config_has_key section k]\<rparr>)"

definition remove_section_call :: "string \<Rightarrow> btif_state \<Rightarrow> btif_state" where
  "remove_section_call k st =
     st\<lparr>config := snd (config_remove_section (config st) k),
        trace := trace st @ [Config_remove_section k]\<rparr>"

definition config_save :: "string \<Rightarrow> btif_state \<Rightarrow> btif_state" where
  "config_save path st = st\<lparr>trace := trace st @ [Config_save (config st) path]\<rparr>"

text \<open>The chain of \<open>config_has_key(...) || config_has_key(...) || ...\<close>: the keys are
  asked in order and the first one found ends the chain.\<close>

fun any_key_call :: "string \<Rightarrow> string list \<Rightarrow> btif_state \<Rightarrow> bool \<times> btif_state" where
  "any_key_call section [] st = (False, st)"
| "any_key_call section (k # ks) st =
     (case has_key_call section k st of
        (True, st') \<Rightarrow> (True, st')
      | (False, st') \<Rightarrow> any_key_call section ks st')"

definition has_link_key_call :: "string \<Rightarrow> btif_state \<Rightarrow> bool \<times> btif_state" where
  "has_link_key_call section st =
     any_key_call section
       [''LinkKey'', ''LE_KEY_PENC'', ''LE_KEY_PID'', ''LE_KEY_PCSRK'', ''LE_KEY_LENC'',
        ''LE_KEY_LCSRK''] st"

text \<open>The scan loop of timer_config_save on the module state, over the section nodes
  still to visit. Its result is that of \<open>gc_scan\<close> on the store of the state.\<close>

fun gc_scan_loop ::
  "section_t list \<Rightarrow> string list \<times> nat \<Rightarrow> btif_state \<Rightarrow> (string list \<times> nat) \<times> btif_state" where
  "gc_scan_loop [] (keys, total_candidates) st = ((keys, total_candidates), st)"
| "gc_scan_loop (snode # rest) (keys, total_candidates) st =
     (case section_name_call snode st of
        (section, st1) \<Rightarrow>
          if \<not> str_is_bdaddr section then gc_scan_loop rest (keys, total_candidates) st1
          else (case has_link_key_call section st1 of
                  (True, st2) \<Rightarrow> gc_scan_loop rest (keys, total_candidates) st2
                | (False, st2) \<Rightarrow>
                    gc_scan_loop rest
                      (if length keys < CACHE_MAX then keys @ [section] else keys,
                       total_candidates + 1) st2))"

text \<open>The removal loop on the module state; the keys come in the order in which the
  loop takes them. The store it leaves is that of \<open>gc_remove\<close>.\<close>

fun gc_remove_loop :: "string list \<Rightarrow> btif_state \<Rightarrow> btif_state" where
  "gc_remove_loop [] st = st"
| "gc_remove_loop (k # ks) st = gc_remove_loop ks (remove_section_call k st)"

definition btif_config_save :: "btif_state \<Rightarrow> btif_state" where
  "btif_config_save st = alarm_set CONFIG_SETTLE_PERIOD_MS st"

definition btif_config_flush :: "btif_state \<Rightarrow> btif_state" where
  "btif_config_flush st =
     pthread_mutex_unlock (config_save CONFIG_FILE_PATH (pthread_mutex_lock (alarm_cancel st)))"

definition timer_config_save :: "btif_state \<Rightarrow> btif_state" where
  "timer_config_save st =
     (let st1 = pthread_mutex_lock st
      in case gc_scan_loop (config st1) ([], 0) st1 of
           ((keys, total_candidates), st2) \<Rightarrow>
             (let st3 = (if total_candidates > CACHE_MAX * 2
                         then gc_remove_loop (rev keys) st2 else st2)
              in pthread_mutex_unlock (config_save CONFIG_FILE_PATH st3)))"

text \<open>Modelled from the spec: \<open>d\<close> milliseconds pass without a call into the module. A
  set alarm whose time has come runs its callback timer_config_save once and is no
  longer set.\<close>

definition elapse :: "nat \<Rightarrow> btif_state \<Rightarrow> btif_state" where
  "elapse d st =
     (case alarm_timer st of
        None \<Rightarrow> st
      | Some r \<Rightarrow>
          if r \<le> d then timer_config_save (st\<lparr>alarm_timer := None\<rparr>)
          else st\<lparr>alarm_timer := Some (r - d)\<rparr>)"

text \<open>A run of btif_config_save calls, each followed by the given number of
  milliseconds without a call.\<close>

fun save_calls :: "nat list \<Rightarrow> btif_state \<Rightarrow> btif_state" where
  "save_calls [] st = st"
| "save_calls (d # ds) st = save_calls ds (elapse d (btif_config_save st))"

fun is_config_save :: "event \<Rightarrow> bool" where
  "is_config_save (Config_save c p) = True"
| "is_config_save e = False"

definition flushes :: "btif_state \<Rightarrow> nat" where
  "flushes st = length (filter is_config_save (trace st))"

fun saved_images :: "event list \<Rightarrow> config_t list" where
  "saved_images [] = []"
| "saved_images (Config_save c p # es) = c # saved_images es"
| "saved_images (e # es) = saved_images es"

fun removals :: "event list \<Rightarrow> string list" where
  "removals [] = []"
| "removals (Config_remove_section k # es) = k # removals es"
| "removals (e # es) = removals es"

fun visited :: "event list \<Rightarrow> string list" where
  "visited [] = []"
| "visited (Config_section_name s # es) = s # visited es"
| "visited (e # es) = visited es"

fun is_config_read :: "event \<Rightarrow> bool" where
  "is_config_read (Config_section_name s) = True"
| "is_config_read (Config_has_key s k) = True"
| "is_config_read e = False"

text \<open>The events that a call has added to the trace.\<close>

definition new_events :: "btif_state \<Rightarrow> btif_state \<Rightarrow> event list" where
  "new_events st st' = drop (length (trace st)) (trace st')"

text \<open>
  A trace keeps the lock discipline when the lock is taken only while free and released
  only while held, every call on the store is made while it is held, and it is free at
  the end. The flag says whether the lock is held at the start.
\<close>

fun under_lock :: "bool \<Rightarrow> event list \<Rightarrow> bool" where
  "under_lock held [] = (\<not> held)"
| "under_lock held (Mutex_lock # es) = (\<not> held \<and> under_lock True es)"
| "under_lock held (Mutex_unlock # es) = (held \<and> under_lock False es)"
| "under_lock held (e # es) = (held \<and> under_lock held es)"

text \<open>The keys that the removal loop of timer_config_save takes, in its order: the
  tracked keys from the last to the first when the count exceeds the threshold, none
  otherwise.\<close>

definition removed_keys :: "config_t \<Rightarrow> string list" where
  "removed_keys cfg =
     (case gc_scan cfg cfg ([], 0) of
        (keys, total_candidates) \<Rightarrow>
          if total_candidates > CACHE_MAX * 2 then rev keys else [])"

subsection \<open>The words of the spec on garbage collection\<close>

text \<open>A section is bonded when it holds one of the six credential keys; a candidate is
  a device section that is not bonded.\<close>

definition credential_keys :: "string list" where
  "credential_keys =
     [''LinkKey'', ''LE_KEY_PENC'', ''LE_KEY_PID'', ''LE_KEY_PCSRK'', ''LE_KEY_LENC'',
      ''LE_KEY_LCSRK'']"

definition bonded :: "section_t \<Rightarrow> bool" where
  "bonded sec = list_ex (\<lambda>k. entry_find_in (section_entries sec) k \<noteq> None) credential_keys"

definition candidate :: "section_t \<Rightarrow> bool" where
  "candidate sec = (str_is_bdaddr (section_name sec) \<and> \<not> bonded sec)"

definition tracked_candidates :: "config_t \<Rightarrow> section_t list" where
  "tracked_candidates cfg = take CACHE_MAX (filter candidate cfg)"

subsection \<open>Stores for the examples\<close>

definition device_name :: "nat \<Rightarrow> string" where
  "device_name i =
     ''00:00:00:0'' @ [char_of (48 + i div 100 mod 10)] @ '':0'' @
     [char_of (48 + i div 10 mod 10)] @ '':0'' @ [char_of (48 + i mod 10)]"

definition cached_devices :: "nat \<Rightarrow> config_t" where
  "cached_devices n =
     map (\<lambda>i. \<lparr>section_name = device_name i,
               section_entries = [\<lparr>entry_key = ''DevType'', entry_value = ''1''\<rparr>]\<rparr>) [0..<n]"

definition adapter_section :: section_t where
  "adapter_section =
     \<lparr>section_name = ''Adapter'',
      section_entries = [\<lparr>entry_key = ''Name'', entry_value = ''phone''\<rparr>]\<rparr>"

definition paired_device :: section_t where
  "paired_device =
     \<lparr>section_name = ''aa:bb:cc:dd:ee:ff'',
      section_entries =
        [\<lparr>entry_key = ''Name'', entry_value = ''headset''\<rparr>,
         \<lparr>entry_key = ''LinkKey'', entry_value = ''21436587''\<rparr>]\<rparr>"

definition example_store :: "nat \<Rightarrow> config_t" where
  "example_store n = adapter_section # paired_device # cached_devices n"

definition idle_state :: "config_t \<Rightarrow> btif_state" where
  "idle_state cfg = \<lparr>config = cfg, alarm_timer = None, trace = []\<rparr>"

definition armed_state :: "config_t \<Rightarrow> btif_state" where
  "armed_state cfg = \<lparr>config = cfg, alarm_timer = Some 1000, trace = []\<rparr>"

definition text_store :: "string \<Rightarrow> config_t" where
  "text_store s =
     [\<lparr>section_name = ''aa:bb:cc:dd:ee:ff'',
       section_entries = [\<lparr>entry_key = ''Blob'', entry_value = s\<rparr>]\<rparr>]"

section \<open>Lookup after a write\<close>

lemma entry_find_in_entries_set:
  "entry_find_in (entries_set es k v) k = Some \<lparr>entry_key = k, entry_value = v\<rparr>"
  by (induction es) auto

lemma config_get_string_set_string:
  "config_get_string (config_set_string cfg nm k v) nm k d = Some v"
  by (induction cfg) (auto simp: config_get_string_def entry_find_def entry_find_in_entries_set)

section \<open>The garbage collection as a filter\<close>

lemma section_find_distinct:
  "distinct (map section_name cfg) \<Longrightarrow> sec \<in> set cfg \<Longrightarrow> section_find cfg (section_name sec) = Some sec"
  by (induction cfg) (auto simp: rev_image_eqI)

lemma has_link_key_bonded:
  "distinct (map section_name cfg) \<Longrightarrow> sec \<in> set cfg \<Longrightarrow> has_link_key cfg (section_name sec) = bonded sec"
  by (simp add: has_link_key_def bonded_def credential_keys_def config_has_key_def entry_find_def
      section_find_distinct)

lemma gc_scan_filter:
  assumes "distinct (map section_name cfg)" "set secs \<subseteq> set cfg"
  shows "gc_scan cfg secs (keys, tot) =
           (keys @ take (CACHE_MAX - length keys) (map section_name (filter candidate secs)),
            tot + length (filter candidate secs))"
  using assms(2)
proof (induction secs arbitrary: keys tot)
  case Nil
  then show ?case by simp
next
  case (Cons snode rest)
  then have in_cfg: "snode \<in> set cfg" and rest: "set rest \<subseteq> set cfg" by auto
  note hb = has_link_key_bonded [OF assms(1) in_cfg]
  show ?case
  proof (cases "candidate snode")
    case False
    then show ?thesis using Cons.IH [OF rest] hb by (auto simp: candidate_def Let_def)
  next
    case True
    show ?thesis
    proof (cases "length keys < CACHE_MAX")
      case True
      then have "CACHE_MAX - length keys = Suc (CACHE_MAX - length (keys @ [section_name snode]))"
        by simp
      with True \<open>candidate snode\<close> show ?thesis using Cons.IH [OF rest] hb
        by (simp add: candidate_def Let_def)
    next
      case False
      with \<open>candidate snode\<close> show ?thesis using Cons.IH [OF rest] hb
        by (simp add: candidate_def Let_def)
    qed
  qed
qed

lemma config_remove_section_filter:
  "distinct (map section_name cfg) \<Longrightarrow>
     snd (config_remove_section cfg k) = filter (\<lambda>s. section_name s \<noteq> k) cfg"
proof (induction cfg)
  case Nil
  then show ?case by simp
next
  case (Cons sec rest)
  show ?case
  proof (cases "section_name sec = k")
    case True
    with Cons.prems have "\<forall>s \<in> set rest. section_name s \<noteq> k" by (auto simp: image_iff)
    then have "filter (\<lambda>s. section_name s \<noteq> k) rest = rest" by (simp add: filter_id_conv)
    with True show ?thesis by simp
  next
    case False
    with Cons show ?thesis by (auto split: prod.splits)
  qed
qed

lemma gc_remove_filter:
  "distinct (map section_name cfg) \<Longrightarrow>
     gc_remove cfg ks = filter (\<lambda>s. section_name s \<notin> set ks) cfg"
proof (induction ks arbitrary: cfg)
  case Nil
  then show ?case by simp
next
  case (Cons k ks)
  have d: "distinct (map section_name (filter (\<lambda>s. section_name s \<noteq> k) cfg))"
    using Cons.prems by (simp add: distinct_map_filter)
  show ?case
    using Cons.IH [OF d] Cons.prems
    by (simp add: config_remove_section_filter conj_commute)
qed

lemma timer_config_save_gc_filter:
  assumes "distinct (map section_name cfg)"
  shows "timer_config_save_gc cfg =
           (if CACHE_MAX * 2 < length (filter candidate cfg)
            then filter (\<lambda>s. s \<notin> set (tracked_candidates cfg)) cfg
            else cfg)"
proof -
  have scan: "gc_scan cfg cfg ([], 0) =
      (map section_name (tracked_candidates cfg), length (filter candidate cfg))"
    using gc_scan_filter [OF assms subset_refl, of "[]" 0]
    by (simp add: tracked_candidates_def take_map)
  have inj: "inj_on section_name (set cfg)"
    using assms by (simp add: distinct_map)
  have sub: "set (tracked_candidates cfg) \<subseteq> set cfg"
    unfolding tracked_candidates_def by (meson filter_is_subset set_take_subset subset_trans)
  have "filter (\<lambda>s. section_name s \<notin> section_name ` set (tracked_candidates cfg)) cfg =
        filter (\<lambda>s. s \<notin> set (tracked_candidates cfg)) cfg"
    using inj sub by (intro filter_cong refl) (auto dest: inj_onD)
  then show ?thesis
    using scan by (simp add: timer_config_save_gc_def gc_remove_filter [OF assms])
qed

section \<open>The calls of timer_config_save on the store\<close>

lemma has_link_key_list_ex:
  "has_link_key cfg section =
     list_ex (config_has_key cfg section)
       [''LinkKey'', ''LE_KEY_PENC'', ''LE_KEY_PID'', ''LE_KEY_PCSRK'', ''LE_KEY_LENC'',
        ''LE_KEY_LCSRK'']"
  by (simp add: has_link_key_def)

lemma visited_append: "visited (es @ fs) = visited es @ visited fs"
proof (induction es)
  case Nil
  then show ?case by simp
next
  case (Cons e es)
  then show ?case by (cases e) simp_all
qed

lemma any_key_call_reads:
  "\<exists>es. list_all is_config_read es \<and> visited es = [] \<and>
        any_key_call section ks st =
          (list_ex (config_has_key (config st) section) ks, st\<lparr>trace := trace st @ es\<rparr>)"
proof (induction ks arbitrary: st)
  case Nil
  have "list_all is_config_read [] \<and> visited [] = []" by simp
  moreover have "any_key_call section [] st =
      (list_ex (config_has_key (config st) section) [], st\<lparr>trace := trace st @ []\<rparr>)"
    by simp
  ultimately show ?case by blast
next
  case (Cons k ks)
  let ?st' = "st\<lparr>trace := trace st @ [Config_has_key section k]\<rparr>"
  show ?case
  proof (cases "config_has_key (config st) section k")
    case True
    then have "any_key_call section (k # ks) st =
        (list_ex (config_has_key (config st) section) (k # ks),
         st\<lparr>trace := trace st @ [Config_has_key section k]\<rparr>)"
      by (simp add: has_key_call_def)
    moreover have "list_all is_config_read [Config_has_key section k] \<and>
        visited [Config_has_key section k] = []"
      by simp
    ultimately show ?thesis by blast
  next
    case False
    from Cons.IH [of ?st'] obtain es where es: "list_all is_config_read es" "visited es = []"
      and eq: "any_key_call section ks ?st' =
        (list_ex (config_has_key (config ?st') section) ks, ?st'\<lparr>trace := trace ?st' @ es\<rparr>)"
      by blast
    from False eq have "any_key_call section (k # ks) st =
        (list_ex (config_has_key (config st) section) (k # ks),
         st\<lparr>trace := trace st @ (Config_has_key section k # es)\<rparr>)"
      by (simp add: has_key_call_def)
    moreover have "list_all is_config_read (Config_has_key section k # es) \<and>
        visited (Config_has_key section k # es) = []"
      using es by simp
    ultimately show ?thesis by blast
  qed
qed

lemma has_link_key_call_reads:
  "\<exists>es. list_all is_config_read es \<and> visited es = [] \<and>
        has_link_key_call section st =
          (has_link_key (config st) section, st\<lparr>trace := trace st @ es\<rparr>)"
  unfolding has_link_key_call_def has_link_key_list_ex by (rule any_key_call_reads)

lemma gc_scan_loop_reads:
  "\<exists>es. list_all is_config_read es \<and> visited es = map section_name secs \<and>
        gc_scan_loop secs (keys, tot) st =
          (gc_scan (config st) secs (keys, tot), st\<lparr>trace := trace st @ es\<rparr>)"
proof (induction secs arbitrary: keys tot st)
  case Nil
  have "list_all is_config_read [] \<and> visited [] = map section_name []" by simp
  moreover have "gc_scan_loop [] (keys, tot) st =
      (gc_scan (config st) [] (keys, tot), st\<lparr>trace := trace st @ []\<rparr>)"
    by simp
  ultimately show ?case by blast
next
  case (Cons snode rest)
  let ?e = "Config_section_name (section_name snode)"
  let ?st1 = "st\<lparr>trace := trace st @ [?e]\<rparr>"
  show ?case
  proof (cases "str_is_bdaddr (section_name snode)")
    case False
    from Cons.IH [of keys tot ?st1] obtain es where es: "list_all is_config_read es"
      "visited es = map section_name rest"
      and eq: "gc_scan_loop rest (keys, tot) ?st1 =
        (gc_scan (config ?st1) rest (keys, tot), ?st1\<lparr>trace := trace ?st1 @ es\<rparr>)"
      by blast
    from False eq have "gc_scan_loop (snode # rest) (keys, tot) st =
        (gc_scan (config st) (snode # rest) (keys, tot), st\<lparr>trace := trace st @ (?e # es)\<rparr>)"
      by (simp add: section_name_call_def)
    moreover have "list_all is_config_read (?e # es) \<and>
        visited (?e # es) = map section_name (snode # rest)"
      using es by simp
    ultimately show ?thesis by blast
  next
    case True
    from has_link_key_call_reads [of "section_name snode" ?st1]
    obtain ks where ks: "list_all is_config_read ks" "visited ks = []"
      and hk: "has_link_key_call (section_name snode) ?st1 =
        (has_link_key (config st) (section_name snode), ?st1\<lparr>trace := trace ?st1 @ ks\<rparr>)"
      by auto
    let ?st2 = "?st1\<lparr>trace := trace ?st1 @ ks\<rparr>"
    let ?acc = "if has_link_key (config st) (section_name snode) then (keys, tot)
                else (if length keys < CACHE_MAX then keys @ [section_name snode] else keys,
                      tot + 1)"
    from Cons.IH [of "fst ?acc" "snd ?acc" ?st2] obtain es where es: "list_all is_config_read es"
      "visited es = map section_name rest"
      and eq: "gc_scan_loop rest ?acc ?st2 =
        (gc_scan (config ?st2) rest ?acc, ?st2\<lparr>trace := trace ?st2 @ es\<rparr>)"
      by auto
    from True hk eq have "gc_scan_loop (snode # rest) (keys, tot) st =
        (gc_scan (config st) (snode # rest) (keys, tot),
         st\<lparr>trace := trace st @ (?e # ks @ es)\<rparr>)"
      by (simp add: section_name_call_def split: if_splits)
    moreover have "list_all is_config_read (?e # ks @ es) \<and>
        visited (?e # ks @ es) = map section_name (snode # rest)"
      using ks es by (simp add: visited_append)
    ultimately show ?thesis by blast
  qed
qed

lemma gc_remove_loop_eq:
  "gc_remove_loop ks st =
     st\<lparr>config := gc_remove (config st) ks, trace := trace st @ map Config_remove_section ks\<rparr>"
  by (induction ks arbitrary: st) (simp_all add: remove_section_call_def)

lemma gc_remove_removed_keys:
  "gc_remove cfg (removed_keys cfg) = timer_config_save_gc cfg"
  by (simp add: removed_keys_def timer_config_save_gc_def split: prod.splits)

lemma timer_config_save_events:
  "\<exists>es. list_all is_config_read es \<and> visited es = map section_name (config st) \<and>
        timer_config_save st =
          st\<lparr>config := timer_config_save_gc (config st),
             trace := trace st @ Mutex_lock # es @ map Config_remove_section (removed_keys (config st)) @
               [Config_save (timer_config_save_gc (config st)) CONFIG_FILE_PATH, Mutex_unlock]\<rparr>"
proof -
  let ?st1 = "pthread_mutex_lock st"
  obtain keys tot where sc: "gc_scan (config st) (config st) ([], 0) = (keys, tot)"
    by (cases "gc_scan (config st) (config st) ([], 0)") 
  from gc_scan_loop_reads [of "config ?st1" "[]" 0 ?st1]
  obtain es where es: "list_all is_config_read es" "visited es = map section_name (config st)"
    and eq: "gc_scan_loop (config ?st1) ([], 0) ?st1 =
      ((keys, tot), ?st1\<lparr>trace := trace ?st1 @ es\<rparr>)"
    using sc by (auto simp: pthread_mutex_lock_def)
  have "timer_config_save st =
      st\<lparr>config := timer_config_save_gc (config st),
         trace := trace st @ Mutex_lock # es @ map Config_remove_section (removed_keys (config st)) @
           [Config_save (timer_config_save_gc (config st)) CONFIG_FILE_PATH, Mutex_unlock]\<rparr>"
    using sc
    by (simp add: timer_config_save_def eq gc_remove_loop_eq removed_keys_def
        timer_config_save_gc_def config_save_def pthread_mutex_unlock_def)
       (simp add: pthread_mutex_lock_def)
  with es show ?thesis by blast
qed

lemma under_lock_reads:
  "list_all is_config_read es \<Longrightarrow> under_lock True (es @ rest) = under_lock True rest"
proof (induction es)
  case Nil
  then show ?case by simp
next
  case (Cons e es)
  then show ?case by (cases e) simp_all
qed

lemma takeWhile_reads_then_removals:
  assumes "list_all is_config_read es"
  shows "takeWhile is_config_read
           (es @ map Config_remove_section ks @ Config_save c p # rest) = es"
proof -
  have "takeWhile is_config_read (map Config_remove_section ks @ Config_save c p # rest) = []"
    by (cases ks) simp_all
  moreover have "\<And>e. e \<in> set es \<Longrightarrow> is_config_read e"
    using assms by (simp add: list_all_iff)
  ultimately show ?thesis by (simp add: takeWhile_append2)
qed

lemma under_lock_removals:
  "under_lock True (map Config_remove_section ks @ rest) = under_lock True rest"
  by (induction ks) simp_all

lemma removals_reads: "list_all is_config_read es \<Longrightarrow> removals (es @ rest) = removals rest"
proof (induction es)
  case Nil
  then show ?case by simp
next
  case (Cons e es)
  then show ?case by (cases e) simp_all
qed

lemma removals_map: "removals (map Config_remove_section ks @ rest) = ks @ removals rest"
  by (induction ks) simp_all

lemma saved_images_reads:
  "list_all is_config_read es \<Longrightarrow> saved_images (es @ rest) = saved_images rest"
proof (induction es)
  case Nil
  then show ?case by simp
next
  case (Cons e es)
  then show ?case by (cases e) simp_all
qed

lemma saved_images_map: "saved_images (map Config_remove_section ks @ rest) = saved_images rest"
  by (induction ks) simp_all

lemma filter_is_config_save_reads:
  "list_all is_config_read es \<Longrightarrow> filter is_config_save es = []"
proof (induction es)
  case Nil
  then show ?case by simp
next
  case (Cons e es)
  then show ?case by (cases e) simp_all
qed

lemma filter_is_config_save_map: "filter is_config_save (map Config_remove_section ks) = []"
  by (induction ks) simp_all

lemma config_timer_config_save: "config (timer_config_save st) = timer_config_save_gc (config st)"
  using timer_config_save_events [of st] by auto

lemma alarm_timer_timer_config_save: "alarm_timer (timer_config_save st) = alarm_timer st"
  using timer_config_save_events [of st] by auto

lemma flushes_timer_config_save: "flushes (timer_config_save st) = flushes st + 1"
proof -
  from timer_config_save_events [of st] obtain es where es: "list_all is_config_read es"
    and eq: "trace (timer_config_save st) =
      trace st @ Mutex_lock # es @ map Config_remove_section (removed_keys (config st)) @
        [Config_save (timer_config_save_gc (config st)) CONFIG_FILE_PATH, Mutex_unlock]"
    by auto
  show ?thesis
    by (simp add: flushes_def eq filter_is_config_save_reads [OF es] filter_is_config_save_map)
qed

section \<open>Facts about the example stores\<close>

lemma digit_char_inj:
  "char_of (48 + a) = (char_of (48 + b) :: char) \<Longrightarrow> a < 10 \<Longrightarrow> b < 10 \<Longrightarrow> a = (b::nat)"
proof -
  assume e: "char_of (48 + a) = (char_of (48 + b) :: char)" and a: "a < 10" and b: "b < 10"
  have "(of_char (char_of (48 + a) :: char) :: nat) = of_char (char_of (48 + b) :: char)"
    using e by simp
  then have "(48 + a) mod 256 = (48 + b) mod 256" by (simp only: of_char_of)
  moreover have "(48 + a) mod 256 = 48 + a" using a by simp
  moreover have "(48 + b) mod 256 = 48 + b" using b by simp
  ultimately show "a = b" by simp
qed

lemma device_name_digits:
  "device_name i = device_name j \<Longrightarrow>
     char_of (48 + i div 100 mod 10) = (char_of (48 + j div 100 mod 10) :: char) \<and>
     char_of (48 + i div 10 mod 10) = (char_of (48 + j div 10 mod 10) :: char) \<and>
     char_of (48 + i mod 10) = (char_of (48 + j mod 10) :: char)"
  unfolding device_name_def by (simp only: append.simps list.inject)

lemma decimal_digits_eq:
  fixes i j :: nat
  assumes a: "i div 100 mod 10 = j div 100 mod 10" and b: "i div 10 mod 10 = j div 10 mod 10"
    and c: "i mod 10 = j mod 10" and i: "i < 1000" and j: "j < 1000"
  shows "i = j"
proof -
  have "i div 100 < 10" "j div 100 < 10"
    using i j by (simp_all add: less_mult_imp_div_less)
  with a have a': "i div 100 = j div 100" by simp
  have hi: "i div 10 div 10 = i div 100" and hj: "j div 10 div 10 = j div 100"
    by (simp_all add: div_mult2_eq [symmetric])
  have "i div 10 = 10 * (i div 10 div 10) + i div 10 mod 10" by (simp only: mult_div_mod_eq)
  also have "\<dots> = 10 * (j div 10 div 10) + j div 10 mod 10" using a' b hi hj by simp
  also have "\<dots> = j div 10" by (simp only: mult_div_mod_eq)
  finally have b': "i div 10 = j div 10" .
  have "i = 10 * (i div 10) + i mod 10" by (simp only: mult_div_mod_eq)
  also have "\<dots> = 10 * (j div 10) + j mod 10" using b' c by simp
  also have "\<dots> = j" by (simp only: mult_div_mod_eq)
  finally show ?thesis .
qed

lemma device_name_inj:
  assumes "device_name i = device_name j" "i < 1000" "j < 1000"
  shows "i = j"
proof -
  note d = device_name_digits [OF assms(1)]
  have "i div 100 mod 10 = j div 100 mod 10"
    using d by (intro digit_char_inj) simp_all
  moreover have "i div 10 mod 10 = j div 10 mod 10"
    using d by (intro digit_char_inj) simp_all
  moreover have "i mod 10 = j mod 10"
    using d by (intro digit_char_inj) simp_all
  ultimately show ?thesis using assms(2,3) by (rule decimal_digits_eq)
qed

lemma isxdigit_digit: "d < 10 \<Longrightarrow> isxdigit (char_of (48 + (d::nat)))"
  by (simp add: isxdigit_def)

lemma isxdigit_zero: "isxdigit CHR ''0''"
  by (simp add: isxdigit_def)

lemma six_Suc: "(6::nat) = Suc (Suc (Suc (Suc (Suc (Suc 0)))))"
  by simp

lemma str_is_bdaddr_device_name: "str_is_bdaddr (device_name i)"
  unfolding str_is_bdaddr_def device_name_def
  by (simp only: six_Suc) (simp add: isxdigit_digit isxdigit_zero)

lemma distinct_cached_devices:
  "n \<le> 1000 \<Longrightarrow> distinct (map section_name (cached_devices n))"
  by (auto simp: cached_devices_def distinct_map comp_def inj_on_def dest: device_name_inj)

lemma candidate_cached_devices: "sec \<in> set (cached_devices n) \<Longrightarrow> candidate sec"
  by (auto simp: cached_devices_def candidate_def bonded_def credential_keys_def
      str_is_bdaddr_device_name)

lemma filter_candidate_cached_devices: "filter candidate (cached_devices n) = cached_devices n"
  by (simp add: filter_id_conv candidate_cached_devices)

lemma length_cached_devices: "length (cached_devices n) = n"
  by (simp add: cached_devices_def)

lemma filter_not_in_take:
  assumes "distinct xs"
  shows "filter (\<lambda>x. x \<notin> set (take n xs)) xs = drop n xs"
proof -
  let ?P = "\<lambda>x. x \<notin> set (take n xs)"
  have "distinct (take n xs @ drop n xs)" using assms by simp
  then have disj: "set (take n xs) \<inter> set (drop n xs) = {}" by (simp only: distinct_append)
  have h1: "filter ?P (take n xs) = []" by (simp add: filter_empty_conv)
  have h2: "filter ?P (drop n xs) = drop n xs" using disj by (auto simp: filter_id_conv)
  have "filter ?P xs = filter ?P (take n xs) @ filter ?P (drop n xs)"
    by (simp only: filter_append [symmetric] append_take_drop_id)
  then show ?thesis by (simp only: h1 h2 append_Nil)
qed

section \<open>The binary accessors\<close>

lemma config_get_string_text_store:
  "config_get_string (text_store s) ''aa:bb:cc:dd:ee:ff'' ''Blob'' None = Some s"
  by (simp add: text_store_def config_get_string_def entry_find_def)

text \<open>
  C5. For every stored text and every capacity \<open>n\<close> of the caller's buffer,
  btif_config_get_bin returns false exactly when the entry is absent, or the text has odd
  length, or it holds a character that is not a hex digit, or \<open>n\<close> is less than half
  its length. The stored texts "12a" (odd length) and "1g" (not hex) both yield false,
  whatever the capacity.
\<close>

theorem btif_config_get_bin_fails_iff:
  "(btif_config_get_bin cfg section k nm n = None \<longleftrightarrow>
      config_get_string cfg k nm None = None \<or>
      (\<exists>s. config_get_string cfg k nm None = Some s \<and>
           (odd (length s) \<or> (\<exists>c \<in> set s. \<not> isxdigit c) \<or> n < length s div 2))) \<and>
   btif_config_get_bin (text_store ''12a'') section ''aa:bb:cc:dd:ee:ff'' ''Blob'' n = None \<and>
   btif_config_get_bin (text_store ''1g'') section ''aa:bb:cc:dd:ee:ff'' ''Blob'' n = None"
proof (intro conjI)
  show "btif_config_get_bin cfg section k nm n = None \<longleftrightarrow>
      config_get_string cfg k nm None = None \<or>
      (\<exists>s. config_get_string cfg k nm None = Some s \<and>
           (odd (length s) \<or> (\<exists>c \<in> set s. \<not> isxdigit c) \<or> n < length s div 2))"
    by (auto simp: btif_config_get_bin_def Let_def list_all_iff odd_iff_mod_2_eq_one
        split: option.splits)
  show "btif_config_get_bin (text_store ''12a'') section ''aa:bb:cc:dd:ee:ff'' ''Blob'' n = None"
    by (simp add: btif_config_get_bin_def config_get_string_text_store)
  show "btif_config_get_bin (text_store ''1g'') section ''aa:bb:cc:dd:ee:ff'' ''Blob'' n = None"
    by (simp add: btif_config_get_bin_def config_get_string_text_store isxdigit_def)
qed

theorem btif_config_get_bin_fails_iff_witness:
  "btif_config_get_bin (text_store ''12a'') ''Remote'' ''aa:bb:cc:dd:ee:ff'' ''Blob'' 8 = None \<and>
   btif_config_get_bin (text_store ''1g'') ''Remote'' ''aa:bb:cc:dd:ee:ff'' ''Blob'' 8 = None \<and>
   btif_config_get_bin (text_store ''12ab'') ''Remote'' ''aa:bb:cc:dd:ee:ff'' ''Blob'' 1 = None \<and>
   btif_config_get_bin (text_store ''12ab'') ''Remote'' ''aa:bb:cc:dd:ee:ff'' ''Missing'' 8 = None \<and>
   btif_config_get_bin (text_store ''12ab'') ''Remote'' ''aa:bb:cc:dd:ee:ff'' ''Blob'' 2 \<noteq> None"
proof -
  have a: "config_get_string (text_store ''12ab'') ''aa:bb:cc:dd:ee:ff'' ''Missing'' None = None"
    by (simp add: text_store_def config_get_string_def entry_find_def)
  have x: "isxdigit CHR ''1''" "isxdigit CHR ''2''" "isxdigit CHR ''a''" "isxdigit CHR ''b''"
    "\<not> isxdigit CHR ''g''"
    by (simp_all add: isxdigit_def)
  show ?thesis
    using btif_config_get_bin_fails_iff
            [of "text_store ''12a''" "''Remote''" "''aa:bb:cc:dd:ee:ff''" "''Blob''" 8]
          btif_config_get_bin_fails_iff
            [of "text_store ''12ab''" "''Remote''" "''aa:bb:cc:dd:ee:ff''" "''Blob''" 1]
          btif_config_get_bin_fails_iff
            [of "text_store ''12ab''" "''Remote''" "''aa:bb:cc:dd:ee:ff''" "''Missing''" 8]
          btif_config_get_bin_fails_iff
            [of "text_store ''12ab''" "''Remote''" "''aa:bb:cc:dd:ee:ff''" "''Blob''" 2]
    by (simp add: config_get_string_text_store a x)
qed

text \<open>
  C6, as stated, fails: for the stored text "1g", which holds a character that is not a
  hex digit, btif_config_get_bin_length returns 1 and not 0.
\<close>

theorem btif_config_get_bin_length_non_hex:
  "btif_config_get_bin_length (text_store ''1g'') ''Remote'' ''aa:bb:cc:dd:ee:ff'' ''Blob'' = 1 \<and>
   \<not> isxdigit CHR ''g''"
  by (simp add: btif_config_get_bin_length_def config_get_string_text_store isxdigit_def)

text \<open>
  C6, amended. btif_config_get_bin_length returns 0 when the entry is absent or the stored
  text has odd length, and half the length of the stored text otherwise; the characters
  of the text are not examined.
\<close>

theorem btif_config_get_bin_length_parity:
  "btif_config_get_bin_length cfg section k nm =
     (case config_get_string cfg k nm None of
        None \<Rightarrow> 0
      | Some s \<Rightarrow> if odd (length s) then 0 else length s div 2)"
  by (simp add: btif_config_get_bin_length_def odd_iff_mod_2_eq_one split: option.splits)

theorem btif_config_get_bin_length_parity_witness:
  "btif_config_get_bin_length (text_store ''12a'') ''Remote'' ''aa:bb:cc:dd:ee:ff'' ''Blob'' = 0 \<and>
   btif_config_get_bin_length (text_store ''12ab'') ''Remote'' ''aa:bb:cc:dd:ee:ff'' ''Blob'' = 2 \<and>
   btif_config_get_bin_length [] ''Remote'' ''aa:bb:cc:dd:ee:ff'' ''Blob'' = 0"
proof -
  have e: "config_get_string [] ''aa:bb:cc:dd:ee:ff'' ''Blob'' None = None"
    by (simp add: config_get_string_def entry_find_def)
  show ?thesis
    using btif_config_get_bin_length_parity
            [of "text_store ''12a''" "''Remote''" "''aa:bb:cc:dd:ee:ff''" "''Blob''"]
          btif_config_get_bin_length_parity
            [of "text_store ''12ab''" "''Remote''" "''aa:bb:cc:dd:ee:ff''" "''Blob''"]
          btif_config_get_bin_length_parity
            [of "[]" "''Remote''" "''aa:bb:cc:dd:ee:ff''" "''Blob''"]
    by (simp add: config_get_string_text_store e)
qed

text \<open>
  C2 at the byte sequence \<open>[0x12]\<close>: btif_config_set_bin stores the text "21", and
  btif_config_get_bin with a buffer of capacity 1 succeeds and returns \<open>[0x21]\<close>, not
  the sequence written.
\<close>

theorem set_bin_get_bin_swaps_nibbles_0x12:
  "btif_config_set_bin True [] ''Remote'' ''aa:bb:cc:dd:ee:ff'' ''LinkKey'' [0x12] =
     (True, [\<lparr>section_name = ''aa:bb:cc:dd:ee:ff'',
              section_entries = [\<lparr>entry_key = ''LinkKey'', entry_value = ''21''\<rparr>]\<rparr>]) \<and>
   btif_config_get_bin
     (snd (btif_config_set_bin True [] ''Remote'' ''aa:bb:cc:dd:ee:ff'' ''LinkKey'' [0x12]))
     ''Remote'' ''aa:bb:cc:dd:ee:ff'' ''LinkKey'' 1 = Some [0x21]"
  by (simp add: btif_config_set_bin_def encode_byte_def lookup_def btif_config_get_bin_def
      config_get_string_def entry_find_def isxdigit_def sscanf_02hhx_def hexval_def)

theorem set_bin_get_bin_swaps_nibbles_0x12_witness:
  "btif_config_get_bin
     [\<lparr>section_name = ''aa:bb:cc:dd:ee:ff'',
        section_entries = [\<lparr>entry_key = ''LinkKey'', entry_value = ''21''\<rparr>]\<rparr>]
     ''Remote'' ''aa:bb:cc:dd:ee:ff'' ''LinkKey'' 1 = Some [0x21]"
proof -
  note t = set_bin_get_bin_swaps_nibbles_0x12
  note written = t [THEN conjunct1]
  show ?thesis
    using t [THEN conjunct2] unfolding written snd_conv .
qed

text \<open>
  C8 at the byte \<open>0x12\<close>: the encoding puts the low nibble first ("21"); the decoding of
  "21" takes the first digit as the high nibble and yields \<open>0x21\<close>.
\<close>

theorem decode_reads_high_nibble_first:
  "encode_byte 0x12 = ''21'' \<and> decode_bin ''21'' = [0x21] \<and> decode_bin ''21'' \<noteq> [0x12]"
  by (simp add: encode_byte_def lookup_def sscanf_02hhx_def hexval_def)

theorem decode_reads_high_nibble_first_witness:
  "decode_bin (encode_byte 0x12) = [0x21]"
  using decode_reads_high_nibble_first by simp

section \<open>The garbage collection policy\<close>

lemma section_find_None_iff:
  "section_find cfg nm = None \<longleftrightarrow> nm \<notin> section_name ` set cfg"
  by (induction cfg) auto

lemma tracked_candidates_subset: "set (tracked_candidates cfg) \<subseteq> set cfg"
  unfolding tracked_candidates_def by (meson filter_is_subset set_take_subset subset_trans)

lemma tracked_candidates_candidate: "s \<in> set (tracked_candidates cfg) \<Longrightarrow> candidate s"
  unfolding tracked_candidates_def by (auto dest: in_set_takeD)

lemma removed_section_not_found:
  assumes "distinct (map section_name cfg)" "s \<in> set cfg" "s \<in> R"
  shows "\<not> config_has_section (filter (\<lambda>x. x \<notin> R) cfg) (section_name s)"
proof -
  have inj: "inj_on section_name (set cfg)" using assms(1) by (simp add: distinct_map)
  have "section_name s \<notin> section_name ` set (filter (\<lambda>x. x \<notin> R) cfg)"
  proof
    assume "section_name s \<in> section_name ` set (filter (\<lambda>x. x \<notin> R) cfg)"
    then obtain x where x: "x \<in> set cfg" "x \<notin> R" "section_name x = section_name s" by auto
    with inj assms(2) have "x = s" by (auto dest: inj_onD)
    with x(2) assms(3) show False by simp
  qed
  then show ?thesis by (simp add: config_has_section_def section_find_None_iff)
qed

text \<open>
  C3. In a store whose section names are unique, when the garbage collection runs: if the
  number of candidates (device sections that are not bonded, all of them counted)
  exceeds 512, the store afterwards is the store without the tracked candidates, the
  first 256 candidates in scan order, and none of them is found in it; if the number is
  at most 512 the store is unchanged.
\<close>

theorem gc_removes_tracked_candidates_above_threshold:
  assumes "distinct (map section_name cfg)"
  shows "(512 < length (filter candidate cfg) \<longrightarrow>
            timer_config_save_gc cfg = filter (\<lambda>s. s \<notin> set (take 256 (filter candidate cfg))) cfg \<and>
            (\<forall>s \<in> set (take 256 (filter candidate cfg)).
               \<not> config_has_section (timer_config_save_gc cfg) (section_name s))) \<and>
         (length (filter candidate cfg) \<le> 512 \<longrightarrow> timer_config_save_gc cfg = cfg)"
proof -
  note gc = timer_config_save_gc_filter [OF assms]
  have tr: "tracked_candidates cfg = take 256 (filter candidate cfg)"
    by (simp add: tracked_candidates_def CACHE_MAX_def)
  show ?thesis
  proof (intro conjI impI ballI)
    assume big: "512 < length (filter candidate cfg)"
    then show eq: "timer_config_save_gc cfg =
        filter (\<lambda>s. s \<notin> set (take 256 (filter candidate cfg))) cfg"
      using gc tr by (simp add: CACHE_MAX_def)
    fix s assume s: "s \<in> set (take 256 (filter candidate cfg))"
    then have "s \<in> set cfg" using tracked_candidates_subset [of cfg] tr by auto
    from removed_section_not_found [OF assms this s]
    show "\<not> config_has_section (timer_config_save_gc cfg) (section_name s)"
      by (simp add: eq)
  next
    assume "length (filter candidate cfg) \<le> 512"
    then show "timer_config_save_gc cfg = cfg" using gc by (simp add: CACHE_MAX_def)
  qed
qed

lemma timer_config_save_gc_cached_devices:
  assumes "n \<le> 1000"
  shows "timer_config_save_gc (cached_devices n) =
           (if 512 < n then drop 256 (cached_devices n) else cached_devices n)"
proof -
  have d: "distinct (cached_devices n)"
    using distinct_cached_devices [OF assms] by (simp add: distinct_map)
  show ?thesis
    using timer_config_save_gc_filter [OF distinct_cached_devices [OF assms]]
    by (simp add: filter_candidate_cached_devices length_cached_devices tracked_candidates_def
        CACHE_MAX_def filter_not_in_take [OF d])
qed

theorem gc_removes_tracked_candidates_above_threshold_witness:
  "distinct (map section_name (cached_devices 600)) \<and>
   length (filter candidate (cached_devices 600)) = 600 \<and>
   timer_config_save_gc (cached_devices 600) = drop 256 (cached_devices 600) \<and>
   length (timer_config_save_gc (cached_devices 600)) = 344 \<and>
   \<not> config_has_section (timer_config_save_gc (cached_devices 600)) (device_name 255) \<and>
   distinct (map section_name (cached_devices 500)) \<and>
   length (filter candidate (cached_devices 500)) = 500 \<and>
   timer_config_save_gc (cached_devices 500) = cached_devices 500"
proof -
  have d6: "distinct (map section_name (cached_devices 600))"
    and d5: "distinct (map section_name (cached_devices 500))"
    by (simp_all add: distinct_cached_devices)
  have d: "distinct (cached_devices 600)" using d6 by (simp add: distinct_map)
  note t6 = gc_removes_tracked_candidates_above_threshold [OF d6]
  note t5 = gc_removes_tracked_candidates_above_threshold [OF d5]
  have c6: "filter candidate (cached_devices 600) = cached_devices 600"
    and c5: "filter candidate (cached_devices 500) = cached_devices 500"
    by (rule filter_candidate_cached_devices)+
  have eq6: "timer_config_save_gc (cached_devices 600) = drop 256 (cached_devices 600)"
    using t6 by (simp add: c6 length_cached_devices filter_not_in_take [OF d])
  have big: "512 < length (filter candidate (cached_devices 600))"
    by (simp add: c6 length_cached_devices)
  have tk: "cached_devices 600 ! 255 \<in> set (take 256 (filter candidate (cached_devices 600)))"
    unfolding c6
    by (simp add: in_set_conv_nth length_cached_devices) (rule exI [of _ 255], simp)
  from t6 big have "\<forall>s \<in> set (take 256 (filter candidate (cached_devices 600))).
      \<not> config_has_section (timer_config_save_gc (cached_devices 600)) (section_name s)"
    by blast
  from bspec [OF this tk]
  have "\<not> config_has_section (timer_config_save_gc (cached_devices 600))
              (section_name (cached_devices 600 ! 255))" .
  moreover have "section_name (cached_devices 600 ! 255) = device_name 255"
    by (simp add: cached_devices_def)
  ultimately have nf: "\<not> config_has_section (timer_config_save_gc (cached_devices 600)) (device_name 255)"
    by simp
  have eq5: "timer_config_save_gc (cached_devices 500) = cached_devices 500"
    using t5 by (simp add: c5 length_cached_devices)
  show ?thesis
    using d6 d5 eq6 eq5 nf by (simp add: c6 c5 length_cached_devices)
qed

lemma not_candidate_adapter_section: "\<not> candidate adapter_section"
  by (simp add: candidate_def adapter_section_def str_is_bdaddr_def six_Suc)

lemma bonded_paired_device: "bonded paired_device"
  by (simp add: bonded_def paired_device_def credential_keys_def)

lemma not_candidate_paired_device: "\<not> candidate paired_device"
  by (simp add: candidate_def bonded_paired_device)

lemma filter_candidate_example_store: "filter candidate (example_store n) = cached_devices n"
  by (simp add: example_store_def not_candidate_adapter_section not_candidate_paired_device
      filter_candidate_cached_devices)

lemma distinct_example_store:
  assumes "n \<le> 1000"
  shows "distinct (map section_name (example_store n))"
proof -
  have "''Adapter'' \<notin> section_name ` set (cached_devices n)"
    by (auto simp: cached_devices_def device_name_def)
  moreover have "''aa:bb:cc:dd:ee:ff'' \<notin> section_name ` set (cached_devices n)"
    by (auto simp: cached_devices_def device_name_def)
  ultimately show ?thesis
    using distinct_cached_devices [OF assms]
    by (simp add: example_store_def adapter_section_def paired_device_def)
qed

text \<open>
  C1. In a store whose section names are unique, however many candidates there are, a
  section that is bonded (it holds one of the six credential keys) or whose name is not a
  hardware address is still in the store, and found under its name, after the garbage
  collection of timer_config_save.
\<close>

theorem gc_keeps_bonded_and_non_device_sections:
  assumes "distinct (map section_name (config st))" and "sec \<in> set (config st)"
    and "bonded sec \<or> \<not> str_is_bdaddr (section_name sec)"
  shows "sec \<in> set (config (timer_config_save st)) \<and>
         section_find (config (timer_config_save st)) (section_name sec) = Some sec"
proof -
  let ?cfg = "config st"
  have nc: "\<not> candidate sec" using assms(3) by (auto simp: candidate_def)
  then have nt: "sec \<notin> set (tracked_candidates ?cfg)"
    using tracked_candidates_candidate by blast
  have kept: "sec \<in> set (timer_config_save_gc ?cfg)"
    using assms(2) nt by (simp add: timer_config_save_gc_filter [OF assms(1)])
  have "distinct (map section_name (timer_config_save_gc ?cfg))"
    using assms(1) by (simp add: timer_config_save_gc_filter [OF assms(1)] distinct_map_filter)
  from section_find_distinct [OF this kept] kept show ?thesis
    by (simp add: config_timer_config_save)
qed

lemma timer_config_save_gc_example_store_600:
  "timer_config_save_gc (example_store 600) =
     adapter_section # paired_device # drop 256 (cached_devices 600)"
proof -
  have d: "distinct (map section_name (example_store 600))"
    by (simp add: distinct_example_store)
  have dc: "distinct (cached_devices 600)"
    using distinct_cached_devices [of 600] by (simp add: distinct_map)
  have dd: "distinct (example_store 600)" using d by (simp add: distinct_map)
  then have a: "adapter_section \<notin> set (take 256 (cached_devices 600))"
    and p: "paired_device \<notin> set (take 256 (cached_devices 600))"
    by (auto simp: example_store_def dest: in_set_takeD)
  show ?thesis
    using timer_config_save_gc_filter [OF d]
    by (simp add: filter_candidate_example_store tracked_candidates_def CACHE_MAX_def
        length_cached_devices)
       (simp add: example_store_def a p filter_not_in_take [OF dc])
qed

theorem gc_keeps_bonded_and_non_device_sections_witness:
  "bonded paired_device \<and>
   paired_device \<in> set (config (timer_config_save (idle_state (example_store 600)))) \<and>
   \<not> str_is_bdaddr (section_name adapter_section) \<and>
   adapter_section \<in> set (config (timer_config_save (idle_state (example_store 600)))) \<and>
   length (example_store 600) = 602 \<and>
   length (config (timer_config_save (idle_state (example_store 600)))) = 346"
proof -
  have d: "distinct (map section_name (config (idle_state (example_store 600))))"
    by (simp add: idle_state_def distinct_example_store)
  have na: "\<not> str_is_bdaddr (section_name adapter_section)"
    by (simp add: adapter_section_def str_is_bdaddr_def six_Suc)
  have ip: "paired_device \<in> set (config (idle_state (example_store 600)))"
    and ia: "adapter_section \<in> set (config (idle_state (example_store 600)))"
    by (simp_all add: idle_state_def example_store_def)
  have len: "length (config (timer_config_save (idle_state (example_store 600)))) = 346"
    by (simp add: config_timer_config_save idle_state_def timer_config_save_gc_example_store_600
        length_cached_devices)
  show ?thesis
    using gc_keeps_bonded_and_non_device_sections [OF d ip] 
      gc_keeps_bonded_and_non_device_sections [OF d ia] bonded_paired_device na len
    by (simp add: example_store_def length_cached_devices)
qed

section \<open>The two ways to flush\<close>

text \<open>
  C7, as stated, fails for the explicit flush: with 600 cached devices in the store and
  the alarm set, btif_config_flush writes all 600 sections to the file and leaves them in
  the store, where the garbage collection would have left 344.
\<close>

theorem flush_writes_uncollected_store:
  "saved_images (trace (btif_config_flush (armed_state (cached_devices 600)))) =
     [cached_devices 600] \<and>
   saved_images (trace (btif_config_flush (armed_state (cached_devices 600)))) \<noteq>
     [timer_config_save_gc (config (armed_state (cached_devices 600)))] \<and>
   config (btif_config_flush (armed_state (cached_devices 600))) \<noteq>
     timer_config_save_gc (config (armed_state (cached_devices 600))) \<and>
   length (cached_devices 600) = 600 \<and>
   length (timer_config_save_gc (cached_devices 600)) = 344"
proof -
  have gc: "timer_config_save_gc (cached_devices 600) = drop 256 (cached_devices 600)"
    by (simp add: timer_config_save_gc_cached_devices)
  have ne: "cached_devices 600 \<noteq> drop 256 (cached_devices 600)"
  proof
    assume "cached_devices 600 = drop 256 (cached_devices 600)"
    then have "length (cached_devices 600) = length (drop 256 (cached_devices 600))" by simp
    then show False by (simp add: length_cached_devices)
  qed
  show ?thesis
    using ne
    by (simp add: btif_config_flush_def pthread_mutex_lock_def pthread_mutex_unlock_def
        config_save_def alarm_cancel_def armed_state_def gc length_cached_devices)
qed

lemma btif_config_flush_eq:
  "btif_config_flush st =
     st\<lparr>alarm_timer := None,
        trace := trace st @ [Mutex_lock, Config_save (config st) CONFIG_FILE_PATH, Mutex_unlock]\<rparr>"
  by (simp add: btif_config_flush_def pthread_mutex_lock_def pthread_mutex_unlock_def
      config_save_def alarm_cancel_def)

lemma elapse_fires:
  "alarm_timer st = Some r \<Longrightarrow> r \<le> d \<Longrightarrow>
     elapse d st = timer_config_save (st\<lparr>alarm_timer := None\<rparr>)"
  by (simp add: elapse_def)

text \<open>
  C7, amended. A flush by the settle timer (timer_config_save, run when the time of the
  set alarm has come) only adds to the trace, and what it adds keeps the lock
  discipline: the lock is taken first, every call on the store is made while it is held,
  and it is released last. In between come, in this order, the reads of one scan, which
  visits every section once in store order, the removals of one run of the garbage
  collection, and the one save, which writes the collected store; the store afterwards
  is the collected store. An explicit btif_config_flush, from any state, cancels the alarm and
  adds only the taking of the lock, the save of the store as it is and the release: it
  removes nothing and does not run the garbage collection.
\<close>

theorem timer_flush_collects_explicit_flush_does_not:
  "trace (timer_config_save st) = trace st @ new_events st (timer_config_save st) \<and>
   under_lock False (new_events st (timer_config_save st)) \<and>
   new_events st (timer_config_save st) =
     Mutex_lock # takeWhile is_config_read (tl (new_events st (timer_config_save st))) @
     map Config_remove_section (removed_keys (config st)) @
     [Config_save (timer_config_save_gc (config st)) CONFIG_FILE_PATH, Mutex_unlock] \<and>
   visited (takeWhile is_config_read (tl (new_events st (timer_config_save st)))) =
     map section_name (config st) \<and>
   removals (new_events st (timer_config_save st)) = removed_keys (config st) \<and>
   gc_remove (config st) (removed_keys (config st)) = timer_config_save_gc (config st) \<and>
   config (timer_config_save st) = timer_config_save_gc (config st) \<and>
   saved_images (new_events st (timer_config_save st)) = [timer_config_save_gc (config st)] \<and>
   drop (length (new_events st (timer_config_save st)) - 2)
        (new_events st (timer_config_save st)) =
     [Config_save (timer_config_save_gc (config st)) CONFIG_FILE_PATH, Mutex_unlock] \<and>
   alarm_timer (timer_config_save st) = alarm_timer st \<and>
   (alarm_timer st = Some r \<and> r \<le> d \<longrightarrow>
      elapse d st = timer_config_save (st\<lparr>alarm_timer := None\<rparr>)) \<and>
   config (btif_config_flush st) = config st \<and>
   alarm_timer (btif_config_flush st) = None \<and>
   trace (btif_config_flush st) = trace st @ new_events st (btif_config_flush st) \<and>
   new_events st (btif_config_flush st) =
     [Mutex_lock, Config_save (config st) CONFIG_FILE_PATH, Mutex_unlock] \<and>
   under_lock False (new_events st (btif_config_flush st)) \<and>
   removals (new_events st (btif_config_flush st)) = []"
proof -
  let ?gc = "timer_config_save_gc (config st)"
  let ?tail = "[Config_save ?gc CONFIG_FILE_PATH, Mutex_unlock]"
  from timer_config_save_events [of st] obtain es where es: "list_all is_config_read es"
    and vis: "visited es = map section_name (config st)"
    and eq: "timer_config_save st =
      st\<lparr>config := ?gc,
         trace := trace st @ Mutex_lock # es @
           map Config_remove_section (removed_keys (config st)) @ ?tail\<rparr>"
    by blast
  let ?new = "Mutex_lock # es @ map Config_remove_section (removed_keys (config st)) @ ?tail"
  have new: "new_events st (timer_config_save st) = ?new"
    by (simp add: new_events_def eq)
  have t1: "trace (timer_config_save st) = trace st @ new_events st (timer_config_save st)"
    unfolding new by (simp add: eq)
  have t2: "under_lock False (new_events st (timer_config_save st))"
    unfolding new by (simp add: under_lock_reads [OF es] under_lock_removals)
  have scan: "takeWhile is_config_read (tl (new_events st (timer_config_save st))) = es"
    unfolding new using takeWhile_reads_then_removals [OF es] by simp
  have t3: "new_events st (timer_config_save st) =
     Mutex_lock # takeWhile is_config_read (tl (new_events st (timer_config_save st))) @
     map Config_remove_section (removed_keys (config st)) @ ?tail"
    unfolding scan by (rule new)
  have t3': "visited (takeWhile is_config_read (tl (new_events st (timer_config_save st)))) =
     map section_name (config st)"
    unfolding scan by (rule vis)
  have t4: "removals (new_events st (timer_config_save st)) = removed_keys (config st)"
    unfolding new by (simp add: removals_reads [OF es] removals_map)
  have t5: "saved_images (new_events st (timer_config_save st)) = [?gc]"
    unfolding new by (simp add: saved_images_reads [OF es] saved_images_map)
  have "?new = (Mutex_lock # es @ map Config_remove_section (removed_keys (config st))) @ ?tail"
    by simp
  then have t6: "drop (length (new_events st (timer_config_save st)) - 2)
      (new_events st (timer_config_save st)) = ?tail"
    unfolding new by (simp only: drop_append length_append) simp
  have f1: "new_events st (btif_config_flush st) =
      [Mutex_lock, Config_save (config st) CONFIG_FILE_PATH, Mutex_unlock]"
    by (simp add: new_events_def btif_config_flush_eq)
  have f2: "trace (btif_config_flush st) = trace st @ new_events st (btif_config_flush st)"
    unfolding f1 by (simp add: btif_config_flush_eq)
  have f3: "under_lock False (new_events st (btif_config_flush st))"
    and f4: "removals (new_events st (btif_config_flush st)) = []"
    unfolding f1 by simp_all
  have f5: "config (btif_config_flush st) = config st"
    and f6: "alarm_timer (btif_config_flush st) = None"
    by (simp_all add: btif_config_flush_eq)
  have e: "alarm_timer st = Some r \<and> r \<le> d \<longrightarrow>
      elapse d st = timer_config_save (st\<lparr>alarm_timer := None\<rparr>)"
    by (simp add: elapse_fires)
  from t1 t2 t3 t3' t4 gc_remove_removed_keys [of "config st"] config_timer_config_save [of st]
    t5 t6 alarm_timer_timer_config_save [of st] e f5 f6 f2 f1 f3 f4
  show ?thesis by (intro conjI)
qed

lemma removed_keys_cached_devices_600:
  "removed_keys (cached_devices 600) = rev (map device_name [0..<256])"
proof -
  have d: "distinct (map section_name (cached_devices 600))"
    by (simp add: distinct_cached_devices)
  have "gc_scan (cached_devices 600) (cached_devices 600) ([], 0) =
      (map section_name (take 256 (cached_devices 600)), 600)"
    using gc_scan_filter [OF d subset_refl, of "[]" 0]
    by (simp add: filter_candidate_cached_devices length_cached_devices CACHE_MAX_def take_map)
  moreover have "map section_name (take 256 (cached_devices 600)) = map device_name [0..<256]"
    by (simp add: cached_devices_def take_map comp_def)
  ultimately show ?thesis by (simp add: removed_keys_def CACHE_MAX_def)
qed

theorem timer_flush_collects_explicit_flush_does_not_witness:
  "under_lock False (trace (elapse 1000 (armed_state (cached_devices 600)))) \<and>
   removals (trace (elapse 1000 (armed_state (cached_devices 600)))) =
     rev (map device_name [0..<256]) \<and>
   saved_images (trace (elapse 1000 (armed_state (cached_devices 600)))) =
     [drop 256 (cached_devices 600)] \<and>
   config (elapse 1000 (armed_state (cached_devices 600))) = drop 256 (cached_devices 600) \<and>
   alarm_timer (elapse 1000 (armed_state (cached_devices 600))) = None \<and>
   trace (btif_config_flush (armed_state (cached_devices 600))) =
     [Mutex_lock, Config_save (cached_devices 600) CONFIG_FILE_PATH, Mutex_unlock] \<and>
   config (btif_config_flush (armed_state (cached_devices 600))) = cached_devices 600 \<and>
   alarm_timer (btif_config_flush (armed_state (cached_devices 600))) = None"
proof -
  let ?st = "armed_state (cached_devices 600)"
  let ?fired = "?st\<lparr>alarm_timer := None\<rparr>"
  have gc: "timer_config_save_gc (cached_devices 600) = drop 256 (cached_devices 600)"
    by (simp add: timer_config_save_gc_cached_devices)
  have a: "alarm_timer ?st = Some 1000 \<and> (1000::nat) \<le> 1000"
    by (simp add: armed_state_def)
  note fire = timer_flush_collects_explicit_flush_does_not [of ?st 1000 1000]
  note run = timer_flush_collects_explicit_flush_does_not [of ?fired 0 0]
  have el: "elapse 1000 ?st = timer_config_save ?fired"
    using fire a by blast
  have tr: "trace (timer_config_save ?fired) = new_events ?fired (timer_config_save ?fired)"
    using run by (simp add: armed_state_def)
  have c: "config ?fired = cached_devices 600" and al: "alarm_timer ?fired = None"
    by (simp_all add: armed_state_def)
  have w1: "under_lock False (trace (elapse 1000 ?st))"
    unfolding el tr using run by blast
  have w2: "removals (trace (elapse 1000 ?st)) = rev (map device_name [0..<256])"
    unfolding el tr using run by (simp add: c removed_keys_cached_devices_600)
  have w3: "saved_images (trace (elapse 1000 ?st)) = [drop 256 (cached_devices 600)]"
    unfolding el tr using run by (simp add: c gc)
  have w4: "config (elapse 1000 ?st) = drop 256 (cached_devices 600)"
    unfolding el using run by (simp add: c gc)
  have w5: "alarm_timer (elapse 1000 ?st) = None"
    unfolding el using run by (simp add: al)
  have w6: "trace (btif_config_flush ?st) =
      [Mutex_lock, Config_save (cached_devices 600) CONFIG_FILE_PATH, Mutex_unlock]"
    and w7: "config (btif_config_flush ?st) = cached_devices 600"
    and w8: "alarm_timer (btif_config_flush ?st) = None"
    using fire by (simp_all add: armed_state_def)
  from w1 w2 w3 w4 w5 w6 w7 w8 show ?thesis by (intro conjI)
qed

section \<open>The settle timer\<close>

lemma flushes_btif_config_save: "flushes (btif_config_save st) = flushes st"
  by (simp add: flushes_def btif_config_save_def alarm_set_def)

lemma alarm_timer_btif_config_save:
  "alarm_timer (btif_config_save st) = Some CONFIG_SETTLE_PERIOD_MS"
  by (simp add: btif_config_save_def alarm_set_def)

lemma elapse_before_deadline:
  "alarm_timer st = Some r \<Longrightarrow> d < r \<Longrightarrow> flushes (elapse d st) = flushes st"
  by (simp add: elapse_def flushes_def)

lemma elapse_after_deadline:
  "alarm_timer st = Some r \<Longrightarrow> r \<le> d \<Longrightarrow>
     flushes (elapse d st) = flushes st + 1 \<and> alarm_timer (elapse d st) = None"
  by (simp add: elapse_def flushes_timer_config_save alarm_timer_timer_config_save)
     (simp add: flushes_def)

lemma save_calls_burst:
  "\<forall>d \<in> set ds. d < CONFIG_SETTLE_PERIOD_MS \<Longrightarrow> flushes (save_calls ds st) = flushes st"
proof (induction ds arbitrary: st)
  case Nil
  then show ?case by simp
next
  case (Cons d ds)
  have "flushes (elapse d (btif_config_save st)) = flushes st"
    using Cons.prems elapse_before_deadline [OF alarm_timer_btif_config_save, where d = d and st1 = st]
    by (simp add: flushes_btif_config_save)
  with Cons show ?case by simp
qed

lemma save_calls_append: "save_calls (ds @ es) st = save_calls es (save_calls ds st)"
  by (induction ds arbitrary: st) simp_all

lemma save_calls_spaced:
  "\<forall>d \<in> set ds. CONFIG_SETTLE_PERIOD_MS < d \<Longrightarrow>
     flushes (save_calls ds st) = flushes st + length ds"
proof (induction ds arbitrary: st)
  case Nil
  then show ?case by simp
next
  case (Cons d ds)
  have "flushes (elapse d (btif_config_save st)) = flushes st + 1"
    using Cons.prems elapse_after_deadline [OF alarm_timer_btif_config_save, where d = d and st1 = st]
    by (simp add: flushes_btif_config_save)
  with Cons show ?case by simp
qed

text \<open>
  C4. btif_config_save sets the one alarm to the full settle period of 3000 ms, whatever
  was left on it. A run of calls in which each call follows the one before in less than
  the settle period, followed by at least the settle period without a call, gives
  exactly one flush and leaves the alarm not set. A run of calls each followed by more
  than the settle period without a call gives one flush for each call.
\<close>

theorem save_calls_debounced:
  "alarm_timer (btif_config_save st) = Some 3000 \<and>
   ((\<forall>d \<in> set ds. d < 3000) \<and> 3000 \<le> q \<longrightarrow>
      flushes (save_calls (ds @ [q]) st) = flushes st + 1 \<and>
      alarm_timer (save_calls (ds @ [q]) st) = None) \<and>
   ((\<forall>d \<in> set ds. 3000 < d) \<longrightarrow> flushes (save_calls ds st) = flushes st + length ds)"
proof (intro conjI impI)
  show "alarm_timer (btif_config_save st) = Some 3000"
    by (simp add: btif_config_save_def alarm_set_def CONFIG_SETTLE_PERIOD_MS_def)
next
  assume h: "(\<forall>d \<in> set ds. d < 3000) \<and> 3000 \<le> q"
  then have b: "flushes (save_calls ds st) = flushes st"
    using save_calls_burst [of ds st] by (simp add: CONFIG_SETTLE_PERIOD_MS_def)
  have q: "CONFIG_SETTLE_PERIOD_MS \<le> q" using h by (simp add: CONFIG_SETTLE_PERIOD_MS_def)
  note e = elapse_after_deadline [OF alarm_timer_btif_config_save q, of "save_calls ds st"]
  show "flushes (save_calls (ds @ [q]) st) = flushes st + 1"
    using e b by (simp add: save_calls_append flushes_btif_config_save)
  show "alarm_timer (save_calls (ds @ [q]) st) = None"
    using e by (simp add: save_calls_append)
next
  assume "\<forall>d \<in> set ds. 3000 < d"
  then show "flushes (save_calls ds st) = flushes st + length ds"
    using save_calls_spaced [of ds st] by (simp add: CONFIG_SETTLE_PERIOD_MS_def)
qed

theorem save_calls_debounced_witness:
  "flushes (save_calls [100, 2999, 0, 3000] (idle_state (example_store 600))) = 1 \<and>
   flushes (save_calls [3001, 5000, 4000] (idle_state (example_store 600))) = 3 \<and>
   alarm_timer (btif_config_save (armed_state (example_store 600))) = Some 3000"
proof -
  have f: "flushes (idle_state (example_store 600)) = 0"
    by (simp add: flushes_def idle_state_def)
  show ?thesis
    using save_calls_debounced [of "idle_state (example_store 600)" "[100, 2999, 0]" 3000]
      save_calls_debounced [of "idle_state (example_store 600)" "[3001, 5000, 4000]" 0]
      save_calls_debounced [of "armed_state (example_store 600)" "[]" 0]
    by (simp add: f)
qed

section \<open>The unused first argument and the string buffer\<close>

lemma fst_entries_remove: "fst (entries_remove es k) = (entry_find_in es k \<noteq> None)"
  by (induction es) (auto split: prod.splits)

lemma fst_config_remove_key: "fst (config_remove_key cfg nm k) = config_has_key cfg nm k"
proof (induction cfg)
  case Nil
  then show ?case by (simp add: config_has_key_def entry_find_def)
next
  case (Cons sec rest)
  show ?case
  proof (cases "section_name sec = nm")
    case True
    then show ?thesis
      using fst_entries_remove [of "section_entries sec" k]
      by (simp add: config_has_key_def entry_find_def case_prod_beta)
  next
    case False
    then show ?thesis
      using Cons.IH by (simp add: config_has_key_def entry_find_def case_prod_beta)
  qed
qed

lemma entry_find_in_None_iff: "entry_find_in es k = None \<longleftrightarrow> k \<notin> entry_key ` set es"
  by (induction es) auto

lemma entry_find_in_entries_remove:
  "distinct (map entry_key es) \<Longrightarrow> entry_find_in (snd (entries_remove es k)) k = None"
proof (induction es)
  case Nil
  then show ?case by simp
next
  case (Cons e es)
  show ?case
  proof (cases "entry_key e = k")
    case True
    with Cons.prems show ?thesis by (simp add: entry_find_in_None_iff)
  next
    case False
    with Cons show ?thesis by (simp add: case_prod_beta)
  qed
qed

lemma config_has_key_config_remove_key:
  assumes "\<forall>sec \<in> set cfg. distinct (map entry_key (section_entries sec))"
  shows "\<not> config_has_key (snd (config_remove_key cfg nm k)) nm k"
  using assms
proof (induction cfg)
  case Nil
  then show ?case by (simp add: config_has_key_def entry_find_def)
next
  case (Cons sec rest)
  show ?case
  proof (cases "section_name sec = nm")
    case True
    have "distinct (map entry_key (section_entries sec))" using Cons.prems by simp
    from entry_find_in_entries_remove [OF this, of k] True show ?thesis
      by (simp add: config_has_key_def entry_find_def case_prod_beta)
  next
    case False
    have "\<not> config_has_key (snd (config_remove_key rest nm k)) nm k"
      using Cons by simp
    with False show ?thesis
      by (simp add: config_has_key_def entry_find_def case_prod_beta)
  qed
qed

text \<open>
  C9. has-section, has-entry, get/set int, get/set string, get/set/length binary and
  remove-entry give the same result and the same store for any two values of their first
  argument, because each of them hands its second argument to the store as the section
  name and its third as the key name: has-section asks for the section \<open>k\<close>; has-entry
  and the reads look up the entry \<open>nm\<close> of the section \<open>k\<close>; the writes create or update
  that entry, which holds the written text afterwards; remove-entry removes that entry
  and reports whether there was one.
\<close>

theorem first_argument_is_ignored:
  "btif_config_has_key cfg s1 k = btif_config_has_key cfg s2 k \<and>
   btif_config_exist cfg s1 k nm = btif_config_exist cfg s2 k nm \<and>
   btif_config_get_int strtol cfg s1 k nm i = btif_config_get_int strtol cfg s2 k nm i \<and>
   btif_config_set_int cfg s1 k nm i = btif_config_set_int cfg s2 k nm i \<and>
   btif_config_get_str cfg s1 k nm buf n = btif_config_get_str cfg s2 k nm buf n \<and>
   btif_config_set_str cfg s1 k nm v = btif_config_set_str cfg s2 k nm v \<and>
   btif_config_get_bin cfg s1 k nm n = btif_config_get_bin cfg s2 k nm n \<and>
   btif_config_get_bin_length cfg s1 k nm = btif_config_get_bin_length cfg s2 k nm \<and>
   btif_config_set_bin ok cfg s1 k nm bs = btif_config_set_bin ok cfg s2 k nm bs \<and>
   btif_config_remove cfg s1 k nm = btif_config_remove cfg s2 k nm \<and>
   btif_config_has_key cfg s1 k = config_has_section cfg k \<and>
   btif_config_exist cfg s1 k nm = config_has_key cfg k nm \<and>
   btif_config_get_int strtol cfg s1 k nm i =
     (config_has_key cfg k nm,
      if config_has_key cfg k nm then config_get_int strtol cfg k nm i else i) \<and>
   btif_config_set_int cfg s1 k nm i = (True, config_set_int cfg k nm i) \<and>
   config_get_string (snd (btif_config_set_int cfg s1 k nm i)) k nm None = Some (sprintf_d i) \<and>
   (btif_config_get_str cfg s1 k nm buf n = Returns (False, buf, n) \<longleftrightarrow>
      config_get_string cfg k nm None = None) \<and>
   (\<forall>stored. config_get_string cfg k nm None = Some stored \<longrightarrow>
      btif_config_get_str cfg s1 k nm buf n =
        (case strlcpy buf stored n of
           Undefined_behaviour \<Rightarrow> Undefined_behaviour
         | Returns buf' \<Rightarrow>
             (case strlen buf' of
                Undefined_behaviour \<Rightarrow> Undefined_behaviour
              | Returns l \<Rightarrow> Returns (True, buf', l)))) \<and>
   btif_config_set_str cfg s1 k nm v = (True, config_set_string cfg k nm v) \<and>
   config_get_string (snd (btif_config_set_str cfg s1 k nm v)) k nm None = Some v \<and>
   btif_config_get_bin cfg s1 k nm n =
     (case config_get_string cfg k nm None of
        None \<Rightarrow> None
      | Some t \<Rightarrow>
          if odd (length t) \<or> n < length t div 2 \<or> \<not> list_all isxdigit t then None
          else Some (decode_bin t)) \<and>
   btif_config_get_bin_length cfg s1 k nm =
     (case config_get_string cfg k nm None of
        None \<Rightarrow> 0
      | Some t \<Rightarrow> if odd (length t) then 0 else length t div 2) \<and>
   btif_config_set_bin ok cfg s1 k nm bs =
     (if ok then (True, config_set_string cfg k nm (encode_bin bs)) else (False, cfg)) \<and>
   config_get_string (snd (btif_config_set_bin True cfg s1 k nm bs)) k nm None =
     Some (encode_bin bs) \<and>
   btif_config_remove cfg s1 k nm = config_remove_key cfg k nm \<and>
   fst (btif_config_remove cfg s1 k nm) = btif_config_exist cfg s2 k nm \<and>
   ((\<forall>sec \<in> set cfg. distinct (map entry_key (section_entries sec))) \<longrightarrow>
      \<not> btif_config_exist (snd (btif_config_remove cfg s1 k nm)) s2 k nm)"
proof -
  have indep:
    "btif_config_has_key cfg s1 k = btif_config_has_key cfg s2 k"
    "btif_config_exist cfg s1 k nm = btif_config_exist cfg s2 k nm"
    "btif_config_get_int strtol cfg s1 k nm i = btif_config_get_int strtol cfg s2 k nm i"
    "btif_config_set_int cfg s1 k nm i = btif_config_set_int cfg s2 k nm i"
    "btif_config_get_str cfg s1 k nm buf n = btif_config_get_str cfg s2 k nm buf n"
    "btif_config_set_str cfg s1 k nm v = btif_config_set_str cfg s2 k nm v"
    "btif_config_get_bin cfg s1 k nm n = btif_config_get_bin cfg s2 k nm n"
    "btif_config_get_bin_length cfg s1 k nm = btif_config_get_bin_length cfg s2 k nm"
    "btif_config_set_bin ok cfg s1 k nm bs = btif_config_set_bin ok cfg s2 k nm bs"
    "btif_config_remove cfg s1 k nm = btif_config_remove cfg s2 k nm"
    by (simp_all add: btif_config_has_key_def btif_config_exist_def btif_config_get_int_def
        btif_config_set_int_def btif_config_get_str_def btif_config_set_str_def
        btif_config_get_bin_def btif_config_get_bin_length_def btif_config_set_bin_def
        btif_config_remove_def)
  have p1: "btif_config_has_key cfg s1 k = config_has_section cfg k"
    and p2: "btif_config_exist cfg s1 k nm = config_has_key cfg k nm"
    by (simp_all add: btif_config_has_key_def btif_config_exist_def)
  have p3: "btif_config_get_int strtol cfg s1 k nm i =
     (config_has_key cfg k nm,
      if config_has_key cfg k nm then config_get_int strtol cfg k nm i else i)"
    by (simp add: btif_config_get_int_def Let_def)
  have p4: "btif_config_set_int cfg s1 k nm i = (True, config_set_int cfg k nm i)"
    by (simp add: btif_config_set_int_def)
  have p5: "config_get_string (snd (btif_config_set_int cfg s1 k nm i)) k nm None =
      Some (sprintf_d i)"
    by (simp add: btif_config_set_int_def config_set_int_def config_get_string_set_string)
  have p6: "btif_config_get_str cfg s1 k nm buf n = Returns (False, buf, n) \<longleftrightarrow>
      config_get_string cfg k nm None = None"
    by (simp add: btif_config_get_str_def split: option.splits c_result.splits)
  have p7: "\<forall>stored. config_get_string cfg k nm None = Some stored \<longrightarrow>
      btif_config_get_str cfg s1 k nm buf n =
        (case strlcpy buf stored n of
           Undefined_behaviour \<Rightarrow> Undefined_behaviour
         | Returns buf' \<Rightarrow>
             (case strlen buf' of
                Undefined_behaviour \<Rightarrow> Undefined_behaviour
              | Returns l \<Rightarrow> Returns (True, buf', l)))"
    by (simp add: btif_config_get_str_def)
  have p8: "btif_config_set_str cfg s1 k nm v = (True, config_set_string cfg k nm v)"
    and p9: "config_get_string (snd (btif_config_set_str cfg s1 k nm v)) k nm None = Some v"
    by (simp_all add: btif_config_set_str_def config_get_string_set_string)
  have p10: "btif_config_get_bin cfg s1 k nm n =
     (case config_get_string cfg k nm None of
        None \<Rightarrow> None
      | Some t \<Rightarrow>
          if odd (length t) \<or> n < length t div 2 \<or> \<not> list_all isxdigit t then None
          else Some (decode_bin t))"
    by (simp add: btif_config_get_bin_def Let_def odd_iff_mod_2_eq_one split: option.splits)
  have p11: "btif_config_get_bin_length cfg s1 k nm =
     (case config_get_string cfg k nm None of
        None \<Rightarrow> 0
      | Some t \<Rightarrow> if odd (length t) then 0 else length t div 2)"
    by (simp add: btif_config_get_bin_length_def odd_iff_mod_2_eq_one split: option.splits)
  have p12: "btif_config_set_bin ok cfg s1 k nm bs =
     (if ok then (True, config_set_string cfg k nm (encode_bin bs)) else (False, cfg))"
    by (simp add: btif_config_set_bin_def)
  have p13: "config_get_string (snd (btif_config_set_bin True cfg s1 k nm bs)) k nm None =
     Some (encode_bin bs)"
    by (simp add: btif_config_set_bin_def config_get_string_set_string)
  have p14: "btif_config_remove cfg s1 k nm = config_remove_key cfg k nm"
    by (simp add: btif_config_remove_def)
  have p15: "fst (btif_config_remove cfg s1 k nm) = btif_config_exist cfg s2 k nm"
    by (simp add: btif_config_remove_def btif_config_exist_def fst_config_remove_key)
  have p16: "(\<forall>sec \<in> set cfg. distinct (map entry_key (section_entries sec))) \<longrightarrow>
      \<not> btif_config_exist (snd (btif_config_remove cfg s1 k nm)) s2 k nm"
    by (simp add: btif_config_remove_def btif_config_exist_def config_has_key_config_remove_key)
  from indep p1 p2 p3 p4 p5 p6 p7 p8 p9 p10 p11 p12 p13 p14 p15 p16
  show ?thesis by (intro conjI)
qed

theorem first_argument_is_ignored_witness:
  "btif_config_has_key (text_store ''12ab'') ''Remote'' ''aa:bb:cc:dd:ee:ff'' =
     btif_config_has_key (text_store ''12ab'') ''Local'' ''aa:bb:cc:dd:ee:ff'' \<and>
   btif_config_has_key (text_store ''12ab'') ''aa:bb:cc:dd:ee:ff'' ''Remote'' = False \<and>
   btif_config_set_str [] ''Remote'' ''aa:bb:cc:dd:ee:ff'' ''Name'' ''headset'' =
     btif_config_set_str [] ''Local'' ''aa:bb:cc:dd:ee:ff'' ''Name'' ''headset'' \<and>
   config_get_string (snd (btif_config_set_str [] ''Remote'' ''aa:bb:cc:dd:ee:ff'' ''Name'' ''headset''))
     ''aa:bb:cc:dd:ee:ff'' ''Name'' None = Some ''headset'' \<and>
   btif_config_get_str (text_store ''12ab'') ''Remote'' ''aa:bb:cc:dd:ee:ff'' ''Name'' ''????'' 4 =
     Returns (False, ''????'', 4) \<and>
   btif_config_get_str (text_store ''12ab'') ''Remote'' ''aa:bb:cc:dd:ee:ff'' ''Blob''
       ''????????'' 8 =
     Returns (True, ''12ab'' @ [NUL] @ ''???'', 4) \<and>
   fst (btif_config_remove (text_store ''12ab'') ''Remote'' ''aa:bb:cc:dd:ee:ff'' ''Blob'') = True \<and>
   btif_config_exist
     (snd (btif_config_remove (text_store ''12ab'') ''Remote'' ''aa:bb:cc:dd:ee:ff'' ''Blob''))
     ''Local'' ''aa:bb:cc:dd:ee:ff'' ''Blob'' = False \<and>
   fst (btif_config_remove (text_store ''12ab'') ''aa:bb:cc:dd:ee:ff'' ''Blob'' ''Remote'') = False"
proof -
  note t1 = first_argument_is_ignored
    [where cfg = "text_store ''12ab''" and ?s1.0 = "''Remote''" and ?s2.0 = "''Local''"
       and k = "''aa:bb:cc:dd:ee:ff''"]
  note t2 = first_argument_is_ignored
    [where cfg = "text_store ''12ab''" and ?s1.0 = "''aa:bb:cc:dd:ee:ff''" and k = "''Remote''"]
  note t3 = first_argument_is_ignored
    [where cfg = "[]" and ?s1.0 = "''Remote''" and ?s2.0 = "''Local''"
       and k = "''aa:bb:cc:dd:ee:ff''" and nm = "''Name''" and v = "''headset''"]
  note t4 = first_argument_is_ignored
    [where cfg = "text_store ''12ab''" and ?s1.0 = "''Remote''" and ?s2.0 = "''Local''"
       and k = "''aa:bb:cc:dd:ee:ff''" and nm = "''Name''" and buf = "''????''" and n = 4]
  note t5 = first_argument_is_ignored
    [where cfg = "text_store ''12ab''" and ?s1.0 = "''Remote''" and ?s2.0 = "''Local''"
       and k = "''aa:bb:cc:dd:ee:ff''" and nm = "''Blob''" and buf = "''????????''" and n = 8]
  note t6 = first_argument_is_ignored
    [where cfg = "text_store ''12ab''" and ?s1.0 = "''aa:bb:cc:dd:ee:ff''" and ?s2.0 = "''Local''"
       and k = "''Blob''" and nm = "''Remote''"]
  have a: "btif_config_has_key (text_store ''12ab'') ''Remote'' ''aa:bb:cc:dd:ee:ff'' =
     btif_config_has_key (text_store ''12ab'') ''Local'' ''aa:bb:cc:dd:ee:ff''"
    using t1 by (rule conjunct1)
  have "btif_config_has_key (text_store ''12ab'') ''aa:bb:cc:dd:ee:ff'' ''Remote'' =
      config_has_section (text_store ''12ab'') ''Remote''"
    using t2 by blast
  then have b: "btif_config_has_key (text_store ''12ab'') ''aa:bb:cc:dd:ee:ff'' ''Remote'' = False"
    by (simp add: config_has_section_def text_store_def)
  have c: "btif_config_set_str [] ''Remote'' ''aa:bb:cc:dd:ee:ff'' ''Name'' ''headset'' =
     btif_config_set_str [] ''Local'' ''aa:bb:cc:dd:ee:ff'' ''Name'' ''headset''"
    using t3 by blast
  have d: "config_get_string
      (snd (btif_config_set_str [] ''Remote'' ''aa:bb:cc:dd:ee:ff'' ''Name'' ''headset''))
      ''aa:bb:cc:dd:ee:ff'' ''Name'' None = Some ''headset''"
    using t3 by blast
  have absent: "config_get_string (text_store ''12ab'') ''aa:bb:cc:dd:ee:ff'' ''Name'' None = None"
    by (simp add: text_store_def config_get_string_def entry_find_def)
  have "btif_config_get_str (text_store ''12ab'') ''Remote'' ''aa:bb:cc:dd:ee:ff'' ''Name''
          ''????'' 4 = Returns (False, ''????'', 4) \<longleftrightarrow>
        config_get_string (text_store ''12ab'') ''aa:bb:cc:dd:ee:ff'' ''Name'' None = None"
    using t4 by blast
  then have e: "btif_config_get_str (text_store ''12ab'') ''Remote'' ''aa:bb:cc:dd:ee:ff''
      ''Name'' ''????'' 4 = Returns (False, ''????'', 4)"
    using absent by simp
  have "\<forall>stored. config_get_string (text_store ''12ab'') ''aa:bb:cc:dd:ee:ff'' ''Blob'' None =
        Some stored \<longrightarrow>
      btif_config_get_str (text_store ''12ab'') ''Remote'' ''aa:bb:cc:dd:ee:ff'' ''Blob''
        ''????????'' 8 =
        (case strlcpy ''????????'' stored 8 of
           Undefined_behaviour \<Rightarrow> Undefined_behaviour
         | Returns buf' \<Rightarrow>
             (case strlen buf' of
                Undefined_behaviour \<Rightarrow> Undefined_behaviour
              | Returns l \<Rightarrow> Returns (True, buf', l)))"
    using t5 by blast
  then have f: "btif_config_get_str (text_store ''12ab'') ''Remote'' ''aa:bb:cc:dd:ee:ff''
      ''Blob'' ''????????'' 8 = Returns (True, ''12ab'' @ [NUL] @ ''???'', 4)"
    by (simp add: config_get_string_text_store strlcpy_def strlen_def NUL_def)
  have ex: "btif_config_exist (text_store ''12ab'') ''Local'' ''aa:bb:cc:dd:ee:ff'' ''Blob''"
    by (simp add: btif_config_exist_def config_has_key_def entry_find_def text_store_def)
  have "fst (btif_config_remove (text_store ''12ab'') ''Remote'' ''aa:bb:cc:dd:ee:ff'' ''Blob'') =
      btif_config_exist (text_store ''12ab'') ''Local'' ''aa:bb:cc:dd:ee:ff'' ''Blob''"
    using t5 by blast
  then have g: "fst (btif_config_remove (text_store ''12ab'') ''Remote'' ''aa:bb:cc:dd:ee:ff''
      ''Blob'') = True"
    using ex by simp
  have uk: "\<forall>sec \<in> set (text_store ''12ab''). distinct (map entry_key (section_entries sec))"
    by (simp add: text_store_def)
  have "(\<forall>sec \<in> set (text_store ''12ab''). distinct (map entry_key (section_entries sec))) \<longrightarrow>
      \<not> btif_config_exist
          (snd (btif_config_remove (text_store ''12ab'') ''Remote'' ''aa:bb:cc:dd:ee:ff'' ''Blob''))
          ''Local'' ''aa:bb:cc:dd:ee:ff'' ''Blob''"
    using t5 by blast
  then have h: "btif_config_exist
      (snd (btif_config_remove (text_store ''12ab'') ''Remote'' ''aa:bb:cc:dd:ee:ff'' ''Blob''))
      ''Local'' ''aa:bb:cc:dd:ee:ff'' ''Blob'' = False"
    using uk by simp
  have nex: "\<not> btif_config_exist (text_store ''12ab'') ''Local'' ''Blob'' ''Remote''"
    by (simp add: btif_config_exist_def config_has_key_def entry_find_def text_store_def)
  have "fst (btif_config_remove (text_store ''12ab'') ''aa:bb:cc:dd:ee:ff'' ''Blob'' ''Remote'') =
      btif_config_exist (text_store ''12ab'') ''Local'' ''Blob'' ''Remote''"
    using t6 by blast
  then have j: "fst (btif_config_remove (text_store ''12ab'') ''aa:bb:cc:dd:ee:ff'' ''Blob''
      ''Remote'') = False"
    using nex by simp
  from a b c d e f g h j show ?thesis by (intro conjI)
qed

text \<open>
  C10, as stated, fails at capacity 0: for the stored value "hello" and \<open>*length = 0\<close>,
  btif_config_get_str returns true but writes nothing, no terminator either, and sets
  \<open>*length\<close> to the length of what the array held before (3 for an array holding
  "xyz"); on an array of size 0 the length is read outside the array.
\<close>

theorem btif_config_get_str_zero_capacity:
  "config_get_string (text_store ''hello'') ''aa:bb:cc:dd:ee:ff'' ''Blob'' None = Some ''hello'' \<and>
   btif_config_get_str (text_store ''hello'') ''Remote'' ''aa:bb:cc:dd:ee:ff'' ''Blob''
       (''xyz'' @ [NUL]) 0 =
     Returns (True, ''xyz'' @ [NUL], 3) \<and>
   btif_config_get_str (text_store ''hello'') ''Remote'' ''aa:bb:cc:dd:ee:ff'' ''Blob'' [] 0 =
     Undefined_behaviour"
  by (simp add: btif_config_get_str_def config_get_string_text_store strlcpy_def strlen_def
      NUL_def)

text \<open>
  C10, amended. For a present string entry whose stored value has at least \<open>n\<close>
  characters, where \<open>n \<ge> 1\<close> is \<open>*length\<close> on entry and the array has at least
  \<open>n\<close> bytes, btif_config_get_str returns true, writes the first \<open>n - 1\<close> characters
  and a NUL, and sets \<open>*length\<close> to \<open>n - 1\<close>.
\<close>

theorem btif_config_get_str_truncates:
  assumes "config_get_string cfg k nm None = Some stored" and "NUL \<notin> set stored"
    and "0 < n" and "n \<le> length stored" and "n \<le> length buf"
  shows "btif_config_get_str cfg section k nm buf n =
           Returns (True, take (n - 1) stored @ [NUL] @ drop n buf, n - 1)"
proof -
  let ?copied = "take (n - 1) stored"
  have len: "length ?copied = n - 1" using assms(4) by simp
  have cp: "strlcpy buf stored n = Returns (?copied @ [NUL] @ drop n buf)"
    using assms(3,5) len by (simp add: strlcpy_def Let_def)
  have "NUL \<notin> set ?copied" using assms(2) by (auto dest: in_set_takeD)
  then have "takeWhile (\<lambda>c. c \<noteq> NUL) (?copied @ [NUL] @ drop n buf) = ?copied"
    by (subst takeWhile_append2) auto
  then have sl: "strlen (?copied @ [NUL] @ drop n buf) = Returns (n - 1)"
    using len by (simp add: strlen_def)
  show ?thesis
    by (simp only: btif_config_get_str_def assms(1) cp sl option.case c_result.case)
qed

theorem btif_config_get_str_truncates_witness:
  "btif_config_get_str (text_store ''hello'') ''Remote'' ''aa:bb:cc:dd:ee:ff'' ''Blob'' ''????'' 4 =
     Returns (True, ''hel'' @ [NUL], 3) \<and>
   btif_config_get_str (text_store ''hello'') ''Remote'' ''aa:bb:cc:dd:ee:ff'' ''Blob'' ''?????'' 5 =
     Returns (True, ''hell'' @ [NUL], 4) \<and>
   btif_config_get_str (text_store ''hello'') ''Remote'' ''aa:bb:cc:dd:ee:ff'' ''Blob'' ''?'' 1 =
     Returns (True, [NUL], 0)"
proof -
  have s: "config_get_string (text_store ''hello'') ''aa:bb:cc:dd:ee:ff'' ''Blob'' None = Some ''hello''"
    by (rule config_get_string_text_store)
  have nn: "NUL \<notin> set ''hello''" by (simp add: NUL_def)
  show ?thesis
    using btif_config_get_str_truncates [OF s nn, of 4 "''????''" "''Remote''"]
      btif_config_get_str_truncates [OF s nn, of 5 "''?????''" "''Remote''"]
      btif_config_get_str_truncates [OF s nn, of 1 "''?''" "''Remote''"]
    by simp
qed

section \<open>The round trip through the codec\<close>

text \<open>For every byte sequence, reading back what btif_config_set_bin wrote gives each
  byte with its two nibbles exchanged.\<close>

lemma nibble_cases:
  assumes "n < (16::nat)"
  shows "n \<in> set [0, 1, 2, 3, 4, 5, 6, 7, 8, 9, 10, 11, 12, 13, 14, 15]"
  using assms by (simp add: eval_nat_numeral less_Suc_eq) 

lemma hexval_lookup: "n < 16 \<Longrightarrow> hexval (lookup ! n) = n"
  by (drule nibble_cases) (auto simp: lookup_def hexval_def)

lemma isxdigit_lookup: "n < 16 \<Longrightarrow> isxdigit (lookup ! n)"
  by (drule nibble_cases) (auto simp: lookup_def isxdigit_def)

lemma low_nibble_less: "unat ((b :: uint8_t) AND 0x0F) < 16"
proof -
  have "b AND 0x0F \<le> 0x0F" by (rule word_and_le1)
  then have "unat (b AND 0x0F) \<le> 15" by (simp add: word_le_nat_alt)
  then show ?thesis by simp
qed

lemma high_nibble_less: "unat (drop_bit 4 (b :: uint8_t)) < 16"
proof -
  have "unat b < 2 ^ LENGTH(8)" by (rule unsigned_less)
  then have "unat b < 256" by simp
  then have "unat b div 2 ^ 4 < 16" by (simp add: less_mult_imp_div_less)
  moreover have "unat (drop_bit 4 b) = drop_bit 4 (unat b)" by (rule unat_drop_bit_eq)
  moreover have "drop_bit 4 (unat b) = unat b div 2 ^ 4" by (rule drop_bit_eq_div)
  ultimately show ?thesis by (simp only:)
qed

lemma high_nibble_mask: "drop_bit 4 (b :: uint8_t) AND 0x0F = drop_bit 4 b"
proof -
  have "drop_bit 4 b AND mask 4 = drop_bit 4 b"
    using high_nibble_less [of b] by (simp add: less_mask_eq word_less_nat_alt)
  then show ?thesis by (simp add: mask_eq_exp_minus_1)
qed

lemma encode_byte_nibbles:
  "encode_byte b = [lookup ! unat (b AND 0x0F), lookup ! unat (drop_bit 4 b)]"
  by (simp add: encode_byte_def high_nibble_mask)

lemma decode_bin_encode_bin:
  "decode_bin (encode_bin bs) =
     map (\<lambda>b. of_nat (16 * unat (b AND 0x0F) + unat (drop_bit 4 b))) bs"
  by (induction bs)
     (simp_all add: encode_byte_nibbles sscanf_02hhx_def hexval_lookup low_nibble_less
        high_nibble_less)

lemma length_encode_bin: "length (encode_bin bs) = 2 * length bs"
  by (induction bs) (simp_all add: encode_byte_def)

lemma list_all_isxdigit_encode_bin: "list_all isxdigit (encode_bin bs)"
  by (induction bs)
     (simp_all add: encode_byte_nibbles isxdigit_lookup low_nibble_less high_nibble_less)

lemma btif_config_get_bin_set_bin:
  assumes "length bs \<le> n"
  shows "btif_config_get_bin (snd (btif_config_set_bin True cfg s k nm bs)) s' k nm n =
           Some (map (\<lambda>b. of_nat (16 * unat (b AND 0x0F) + unat (drop_bit 4 b))) bs)"
  using assms
  by (simp add: btif_config_get_bin_def btif_config_set_bin_def config_get_string_set_string
      length_encode_bin list_all_isxdigit_encode_bin decode_bin_encode_bin)

section \<open>Section names stay unique\<close>

lemma section_names_config_set_string:
  "map section_name (config_set_string cfg nm k v) =
     (if nm \<in> set (map section_name cfg) then map section_name cfg
      else map section_name cfg @ [nm])"
  by (induction cfg) auto

lemma distinct_config_set_string:
  "distinct (map section_name cfg) \<Longrightarrow>
     distinct (map section_name (config_set_string cfg nm k v))"
  by (simp add: section_names_config_set_string)

lemma section_names_config_remove_key:
  "map section_name (snd (config_remove_key cfg nm k)) = map section_name cfg"
  by (induction cfg) (auto split: prod.splits)

end
